theory Spec2Isabelle
  imports Complex_Main "HOL-Library.Sublist"
begin

section \<open>Author attribution notebook: data model\<close>

text \<open>
  The notebook \<^verbatim>\<open>Lesson 05/author_attribution\<close> is a straight-line Python script.
  Python exceptions are values of \<open>error\<close>; a computation that may raise returns
  \<open>error + 'a\<close> with \<open>Inl\<close> for the exception. \<open>OSError\<close> stands for the exceptions of
  the file system (a missing file or directory, a refused permission), with the name of
  the subclass.
\<close>

datatype error =
    ValueError
  | IndexError
  | OverflowError
  | OSError string

text \<open>
  A two-dimensional NumPy array: its \<^verbatim>\<open>shape\<close> and its rows.
\<close>

record 'a ndarray =
  nrows :: nat
  ncols :: nat
  rows :: "'a list list"

definition shape :: "'a ndarray \<Rightarrow> nat \<times> nat" where
  "shape X = (nrows X, ncols X)"

text \<open>
  The arrays of the notebook are made by \<^verbatim>\<open>np.zeros\<close> and have \<^verbatim>\<open>float64\<close> cells. A
  Python integer that is stored in a cell is converted to \<^verbatim>\<open>float64\<close>: it is rounded to
  53 significant bits, to the nearest such number and, of two that are equally near, to
  the one with an even last bit; an integer that would round to \<open>2 ^ 1024\<close> or beyond,
  that is, one of magnitude \<open>2 ^ 1024 - 2 ^ 970\<close> or more, raises \<^verbatim>\<open>OverflowError\<close>.
  The number that results is an integer again, and a cell is modelled by the integer it
  holds.

  \<open>excess_bits m\<close> is the number of bits by which \<open>m\<close> is longer than 53 bits.
\<close>

function excess_bits :: "nat \<Rightarrow> nat" where
  "excess_bits m = (if m < 2 ^ 53 then 0 else Suc (excess_bits (m div 2)))"
  by pat_completeness auto
termination
  by (relation "measure (\<lambda>m. m)") auto

declare excess_bits.simps [simp del]

definition round_float64 :: "int \<Rightarrow> int" where
  "round_float64 n =
     (let m = nat \<bar>n\<bar>;
          e = excess_bits m;
          q = m div 2 ^ e;
          r = m mod 2 ^ e;
          q' = (if 2 ^ e < 2 * r \<or> (2 * r = 2 ^ e \<and> odd q) then q + 1 else q)
      in sgn n * int (q' * 2 ^ e))"

definition fits_float64 :: "int \<Rightarrow> bool" where
  "fits_float64 n = (\<bar>n\<bar> < 2 ^ 1024 - 2 ^ 970)"

definition float64_of_int :: "int \<Rightarrow> error + int" where
  "float64_of_int n = (if fits_float64 n then Inr (round_float64 n) else Inl OverflowError)"

text \<open>The conversion of a list of integers, which raises at the first that overflows.\<close>

fun float64_list :: "int list \<Rightarrow> error + int list" where
  "float64_list [] = Inr []"
| "float64_list (n # ns) =
     (case float64_of_int n of
        Inl e \<Rightarrow> Inl e
      | Inr a \<Rightarrow> (case float64_list ns of Inl e \<Rightarrow> Inl e | Inr as \<Rightarrow> Inr (a # as)))"

text \<open>\<^verbatim>\<open>float64\<close> holds an integer exactly when the conversion gives it back.\<close>

definition exact_float64 :: "int \<Rightarrow> bool" where
  "exact_float64 n = (float64_of_int n = Inr n)"

text \<open>\<^verbatim>\<open>np.zeros((r, c))\<close>: a negative dimension raises \<^verbatim>\<open>ValueError\<close>.\<close>

definition np_zeros :: "int \<Rightarrow> int \<Rightarrow> error + int ndarray" where
  "np_zeros r c =
     (if r < 0 \<or> c < 0 then Inl ValueError
      else Inr \<lparr>nrows = nat r, ncols = nat c,
                rows = replicate (nat r) (replicate (nat c) 0)\<rparr>)"

text \<open>
  A Python slice \<^verbatim>\<open>xs[i:j]\<close>: a negative bound counts from the end, and both bounds
  are clipped to the list.
\<close>

definition clip_index :: "nat \<Rightarrow> int \<Rightarrow> nat" where
  "clip_index n i =
     (let j = (if i < 0 then i + int n else i)
      in if j < 0 then 0 else if int n < j then n else nat j)"

definition py_slice :: "'a list \<Rightarrow> int \<Rightarrow> int \<Rightarrow> 'a list" where
  "py_slice xs i j =
     (let lo = clip_index (length xs) i; hi = clip_index (length xs) j
      in take (hi - lo) (drop lo xs))"

text \<open>
  \<^verbatim>\<open>X[i] = v\<close> for a list \<^verbatim>\<open>v\<close> of integers: the list must have the width of the row,
  or one element, which is broadcast; any other length raises \<^verbatim>\<open>ValueError\<close>. The
  integers are converted to \<^verbatim>\<open>float64\<close>. \<^verbatim>\<open>y[i] = a\<close> for an integer \<^verbatim>\<open>a\<close> converts it
  and fills the row.
\<close>

definition setitem_row :: "int ndarray \<Rightarrow> nat \<Rightarrow> int list \<Rightarrow> error + int ndarray" where
  "setitem_row X i v =
     (if nrows X \<le> i then Inl IndexError
      else if length v = ncols X then
        (case float64_list v of
           Inl e \<Rightarrow> Inl e
         | Inr a \<Rightarrow> Inr (X\<lparr>rows := (rows X)[i := a]\<rparr>))
      else if length v = 1 then
        (case float64_list v of
           Inl e \<Rightarrow> Inl e
         | Inr a \<Rightarrow> Inr (X\<lparr>rows := (rows X)[i := replicate (ncols X) (hd a)]\<rparr>))
      else Inl ValueError)"

definition setitem_scalar :: "int ndarray \<Rightarrow> nat \<Rightarrow> int \<Rightarrow> error + int ndarray" where
  "setitem_scalar X i a =
     (if nrows X \<le> i then Inl IndexError
      else case float64_of_int a of
             Inl e \<Rightarrow> Inl e
           | Inr b \<Rightarrow> Inr (X\<lparr>rows := (rows X)[i := replicate (ncols X) b]\<rparr>))"

section \<open>make_subsequences\<close>

text \<open>
  \<^verbatim>\<open>
  SEQ_LEN = 30
  def make_subsequences(long_sequence, label, sequence_length=SEQ_LEN):
      len_sequences = len(long_sequence)
      X = np.zeros(((len_sequences - sequence_length)+1, sequence_length))
      y = np.zeros((X.shape[0], 1))
      for i in range(X.shape[0]):
          X[i] = long_sequence[i:i+sequence_length]
          y[i] = label
      return X,y
  \<close>
  The loop over \<^verbatim>\<open>range(X.shape[0])\<close> is the recursion \<open>subsequences_loop\<close> over the
  list of indices.
\<close>

definition SEQ_LEN :: int where
  "SEQ_LEN = 30"

fun subsequences_loop ::
  "int list \<Rightarrow> int \<Rightarrow> int \<Rightarrow> nat list \<Rightarrow> int ndarray \<times> int ndarray
     \<Rightarrow> error + (int ndarray \<times> int ndarray)" where
  "subsequences_loop long_sequence label sequence_length [] (X, y) = Inr (X, y)"
| "subsequences_loop long_sequence label sequence_length (i # is) (X, y) =
     (case setitem_row X i (py_slice long_sequence (int i) (int i + sequence_length)) of
        Inl e \<Rightarrow> Inl e
      | Inr X' \<Rightarrow>
          (case setitem_scalar y i label of
             Inl e \<Rightarrow> Inl e
           | Inr y' \<Rightarrow> subsequences_loop long_sequence label sequence_length is (X', y')))"

definition make_subsequences ::
  "int list \<Rightarrow> int \<Rightarrow> int \<Rightarrow> error + (int ndarray \<times> int ndarray)" where
  "make_subsequences long_sequence label sequence_length =
     (let len_sequences = int (length long_sequence) in
      case np_zeros ((len_sequences - sequence_length) + 1) sequence_length of
        Inl e \<Rightarrow> Inl e
      | Inr X \<Rightarrow>
          (case np_zeros (int (nrows X)) 1 of
             Inl e \<Rightarrow> Inl e
           | Inr y \<Rightarrow>
               subsequences_loop long_sequence label sequence_length [0..<nrows X] (X, y)))"

section \<open>Stacking, splitting and reshaping\<close>

text \<open>
  \<^verbatim>\<open>np.vstack((A, B))\<close> appends the rows of \<^verbatim>\<open>B\<close> to those of \<^verbatim>\<open>A\<close>; arrays of
  different widths raise \<^verbatim>\<open>ValueError\<close>.
\<close>

definition np_vstack :: "'a ndarray \<Rightarrow> 'a ndarray \<Rightarrow> error + 'a ndarray" where
  "np_vstack A B =
     (if ncols A \<noteq> ncols B then Inl ValueError
      else Inr \<lparr>nrows = nrows A + nrows B, ncols = ncols A, rows = rows A @ rows B\<rparr>)"

text \<open>
  \<^verbatim>\<open>X.reshape(-1, c)\<close>: the cells in row-major order, cut into rows of width \<^verbatim>\<open>c\<close>;
  the number of rows is inferred, and a size that \<^verbatim>\<open>c\<close> does not divide raises
  \<^verbatim>\<open>ValueError\<close>.
\<close>

definition reshape :: "'a ndarray \<Rightarrow> int \<Rightarrow> error + 'a ndarray" where
  "reshape X c =
     (let size = nrows X * ncols X; w = nat c in
      if c \<le> 0 then Inl ValueError
      else if size mod w \<noteq> 0 then Inl ValueError
      else Inr \<lparr>nrows = size div w, ncols = w,
                rows = map (\<lambda>r. take w (drop (r * w) (concat (rows X)))) [0..<size div w]\<rparr>)"

text \<open>\<^verbatim>\<open>X[idx]\<close> for a list of row indices.\<close>

definition take_rows :: "'a ndarray \<Rightarrow> nat list \<Rightarrow> error + 'a ndarray" where
  "take_rows X idx =
     (if list_all (\<lambda>i. i < nrows X) idx
      then Inr \<lparr>nrows = length idx, ncols = ncols X, rows = map (\<lambda>i. rows X ! i) idx\<rparr>
      else Inl IndexError)"

text \<open>
  \<^verbatim>\<open>train_test_split(X, y, train_size=0.8)\<close> is a function of scikit-learn, which is
  not part of the repository. It draws a random permutation of the row indices, here the
  parameter \<open>perm\<close>, gives \<open>\<lfloor>0.8 * n\<rfloor>\<close> rows to the training set and the remaining
  rows to the test set, and raises \<^verbatim>\<open>ValueError\<close> when the arrays differ in their number
  of rows or the training set would be empty. The result is in the order
  \<^verbatim>\<open>X_train, X_val, y_train, y_val\<close>.
\<close>

definition train_test_split ::
  "nat list \<Rightarrow> 'a ndarray \<Rightarrow> 'b ndarray
     \<Rightarrow> error + ('a ndarray \<times> 'a ndarray \<times> 'b ndarray \<times> 'b ndarray)" where
  "train_test_split perm X y =
     (let n_samples = nrows X;
          n_train = (4 * n_samples) div 5;
          n_test = n_samples - n_train;
          test = take n_test perm;
          train = take n_train (drop n_test perm)
      in if nrows y \<noteq> n_samples \<or> n_train = 0 then Inl ValueError
         else case take_rows X train of Inl e \<Rightarrow> Inl e | Inr X_train \<Rightarrow>
              (case take_rows X test of Inl e \<Rightarrow> Inl e | Inr X_val \<Rightarrow>
              (case take_rows y train of Inl e \<Rightarrow> Inl e | Inr y_train \<Rightarrow>
              (case take_rows y test of Inl e \<Rightarrow> Inl e | Inr y_val \<Rightarrow>
                 Inr (X_train, X_val, y_train, y_val)))))"

text \<open>
  \<^verbatim>\<open>
  X = np.vstack((X_authorA, X_authorB))
  y = np.vstack((y_authorA, y_authorB))
  X_train, X_val, y_train, y_val = train_test_split(X,y, train_size=0.8)
  X_train = X_train.reshape(-1, SEQ_LEN)
  X_val =  X_val.reshape(-1, SEQ_LEN)
  \<close>
\<close>

type_synonym arrays = "int ndarray \<times> int ndarray \<times> int ndarray \<times> int ndarray"

definition train_validation_sets ::
  "nat list \<Rightarrow> int ndarray \<Rightarrow> int ndarray \<Rightarrow> int ndarray \<Rightarrow> int ndarray \<Rightarrow> error + arrays" where
  "train_validation_sets perm X_authorA y_authorA X_authorB y_authorB =
     (case np_vstack X_authorA X_authorB of Inl e \<Rightarrow> Inl e | Inr X \<Rightarrow>
     (case np_vstack y_authorA y_authorB of Inl e \<Rightarrow> Inl e | Inr y \<Rightarrow>
     (case train_test_split perm X y of Inl e \<Rightarrow> Inl e
      | Inr (X_train0, X_val0, y_train, y_val) \<Rightarrow>
     (case reshape X_train0 SEQ_LEN of Inl e \<Rightarrow> Inl e | Inr X_train \<Rightarrow>
     (case reshape X_val0 SEQ_LEN of Inl e \<Rightarrow> Inl e | Inr X_val \<Rightarrow>
        Inr (X_train, X_val, y_train, y_val))))))"

text \<open>
  An array is well formed when its recorded shape is the shape of its data: it has
  \<open>nrows\<close> rows, each of \<open>ncols\<close> cells.
\<close>

definition wf_array :: "'a ndarray \<Rightarrow> bool" where
  "wf_array X = (length (rows X) = nrows X \<and> list_all (\<lambda>r. length r = ncols X) (rows X))"

section \<open>Python strings\<close>

text \<open>
  A Python \<^verbatim>\<open>str\<close> is a sequence of Unicode code points, here a list of natural
  numbers; \<open>lit\<close> gives the \<^verbatim>\<open>str\<close> of a literal of the script, whose characters are
  ASCII.
\<close>

type_synonym pystr = "nat list"

definition lit :: "string \<Rightarrow> pystr" where
  "lit s = map of_char s"

definition newline :: nat where
  "newline = 10"

text \<open>
  \<^verbatim>\<open>str.isspace\<close> holds of the code points \<open>0x09\<close> to \<open>0x0D\<close>, \<open>0x1C\<close> to \<open>0x20\<close>,
  \<open>0x85\<close>, \<open>0xA0\<close>, \<open>0x1680\<close>, \<open>0x2000\<close> to \<open>0x200A\<close>, \<open>0x2028\<close>, \<open>0x2029\<close>,
  \<open>0x202F\<close>, \<open>0x205F\<close> and \<open>0x3000\<close>.
\<close>

definition isspace :: "nat \<Rightarrow> bool" where
  "isspace c =
     ((9 \<le> c \<and> c \<le> 13) \<or> (28 \<le> c \<and> c \<le> 32) \<or> c = 133 \<or> c = 160 \<or> c = 5760 \<or>
      (8192 \<le> c \<and> c \<le> 8202) \<or> c = 8232 \<or> c = 8233 \<or> c = 8239 \<or> c = 8287 \<or> c = 12288)"

text \<open>
  The case of a character is a matter of the Unicode database of the Python
  interpreter. Below code point 256 (ASCII and Latin-1) it is written out:
  \<^verbatim>\<open>str.isupper\<close> holds of \<^verbatim>\<open>A\<close> to \<^verbatim>\<open>Z\<close> and of the accented capitals \<open>0xC0\<close> to
  \<open>0xDE\<close> without the multiplication sign \<open>0xD7\<close>, and \<^verbatim>\<open>str.lower\<close> moves these 32
  code points up and leaves the others. From code point 256 on the database is a
  parameter:
  \<^item> \<open>wide_lower c\<close>: the lower-case form of the character \<open>c\<close>, one to three characters
    (\<open>c\<close> itself when it has no other lower-case form);
  \<^item> \<open>wide_isupper c\<close>: whether \<^verbatim>\<open>str.isupper\<close> holds of the character \<open>c\<close>;
  \<^item> \<open>final_sigma s i\<close>: whether the capital sigma (\<open>0x3A3\<close>) at index \<open>i\<close> of \<open>s\<close>
    ends a word, which decides between the two lower-case sigmas.
\<close>

record unicode_db =
  wide_lower :: "nat \<Rightarrow> nat list"
  wide_isupper :: "nat \<Rightarrow> bool"
  final_sigma :: "pystr \<Rightarrow> nat \<Rightarrow> bool"

definition latin1_isupper :: "nat \<Rightarrow> bool" where
  "latin1_isupper c = ((65 \<le> c \<and> c \<le> 90) \<or> (192 \<le> c \<and> c \<le> 222 \<and> c \<noteq> 215))"

definition isupper :: "unicode_db \<Rightarrow> nat \<Rightarrow> bool" where
  "isupper u c = (if c < 256 then latin1_isupper c else wide_isupper u c)"

definition lower_full :: "unicode_db \<Rightarrow> nat \<Rightarrow> nat list" where
  "lower_full u c =
     (if c < 256 then [if latin1_isupper c then c + 32 else c] else wide_lower u c)"

text \<open>
  \<^verbatim>\<open>s.lower()\<close>: every character gives its lower-case form; a capital sigma gives the
  final sigma (\<open>0x3C2\<close>) at the end of a word and the other one (\<open>0x3C3\<close>) elsewhere.
\<close>

definition str_lower :: "unicode_db \<Rightarrow> pystr \<Rightarrow> pystr" where
  "str_lower u s =
     concat (map (\<lambda>i. if s ! i = 931 then [if final_sigma u s i then 962 else 963]
                       else lower_full u (s ! i))
               [0..<length s])"

text \<open>\<^verbatim>\<open>sep.join(xs)\<close>.\<close>

fun str_join :: "pystr \<Rightarrow> pystr list \<Rightarrow> pystr" where
  "str_join sep [] = []"
| "str_join sep [x] = x"
| "str_join sep (x # y # ys) = x @ sep @ str_join sep (y # ys)"

text \<open>
  \<^verbatim>\<open>s.replace(old, new)\<close>: one pass from the left, which replaces an occurrence of
  \<^verbatim>\<open>old\<close> where it finds one and goes on behind it, so that the occurrences replaced
  do not overlap and the text put in is not scanned again. An empty \<^verbatim>\<open>old\<close> matches
  before every character and at the end.
\<close>

function str_replace :: "pystr \<Rightarrow> pystr \<Rightarrow> pystr \<Rightarrow> pystr" where
  "str_replace old new [] = (if old = [] then new else [])"
| "str_replace old new (c # cs) =
     (if old = [] then new @ c # str_replace old new cs
      else if prefix old (c # cs) then new @ str_replace old new (drop (length old) (c # cs))
      else c # str_replace old new cs)"
  by pat_completeness auto
termination
  by (relation "measure (\<lambda>(old, new, s). length s)") auto

text \<open>
  \<^verbatim>\<open>f.readlines()\<close> on the text of a file: the lines, each with its newline, the last
  one without when the text does not end in a newline. The first argument of
  \<open>readlines_from\<close> is the line read so far.
\<close>

fun readlines_from :: "pystr \<Rightarrow> pystr \<Rightarrow> pystr list" where
  "readlines_from line [] = (if line = [] then [] else [line])"
| "readlines_from line (c # cs) =
     (if c = newline then (line @ [c]) # readlines_from [] cs
      else readlines_from (line @ [c]) cs)"

definition readlines :: "pystr \<Rightarrow> pystr list" where
  "readlines content = readlines_from [] content"

text \<open>
  \<^verbatim>\<open>s.split()\<close> without a separator: the maximal runs of characters that are not
  whitespace. The first argument of \<open>split_from\<close> is the word read so far.
\<close>

fun split_from :: "pystr \<Rightarrow> pystr \<Rightarrow> pystr list" where
  "split_from word [] = (if word = [] then [] else [word])"
| "split_from word (c # cs) =
     (if isspace c then (if word = [] then split_from [] cs else word # split_from [] cs)
      else split_from (word @ [c]) cs)"

definition str_split :: "pystr \<Rightarrow> pystr list" where
  "str_split s = split_from [] s"

text \<open>\<^verbatim>\<open>str(n)\<close> for a number that is not negative; the digit \<open>d\<close> is code point \<open>48 + d\<close>.\<close>

fun str_nat :: "nat \<Rightarrow> pystr" where
  "str_nat n = (if n < 10 then [48 + n] else str_nat (n div 10) @ [48 + n mod 10])"

declare str_nat.simps [simp del]

section \<open>preprocess_text\<close>

text \<open>
  \<^verbatim>\<open>
  def preprocess_text(file_path):
      with open(file_path, 'r') as f:
          lines = f.readlines()
          text = ' '.join(lines[1:]).replace("\n", ' ').replace('  ',' ').lower().replace('hamilton','').replace('madison', '')
          text = ' '.join(text.split())
          return text
  \<close>
  \<open>preprocess_lines\<close> is the body of the \<^verbatim>\<open>with\<close> block, from \<^verbatim>\<open>lines\<close> on.
\<close>

definition preprocess_lines :: "unicode_db \<Rightarrow> pystr list \<Rightarrow> pystr" where
  "preprocess_lines u lines =
     (let text = str_replace (lit ''madison'') []
                   (str_replace (lit ''hamilton'') []
                      (str_lower u
                         (str_replace (lit ''  '') (lit '' '')
                            (str_replace [newline] (lit '' '')
                               (str_join (lit '' '') (drop 1 lines))))));
          text = str_join (lit '' '') (str_split text)
      in text)"

text \<open>
  Two adjacent whitespace characters somewhere in a string, and the text of a file
  behind its first line.
\<close>

fun adjacent_spaces :: "pystr \<Rightarrow> bool" where
  "adjacent_spaces (a # b # cs) = ((isspace a \<and> isspace b) \<or> adjacent_spaces (b # cs))"
| "adjacent_spaces cs = False"

definition after_first_line :: "pystr \<Rightarrow> pystr" where
  "after_first_line content = drop 1 (dropWhile (\<lambda>c. c \<noteq> newline) content)"

text \<open>
  The characters that \<^verbatim>\<open>str.lower\<close> puts out are lower-case for good: none of them is
  a capital sigma, and each is its own lower-case form. This is a property of the
  Unicode database; below code point 256 it follows from the definitions above.
\<close>

definition lower_stable :: "unicode_db \<Rightarrow> bool" where
  "lower_stable u =
     ((\<forall>c d. 256 \<le> c \<and> c \<noteq> 931 \<and> d \<in> set (wide_lower u c) \<longrightarrow>
         d \<noteq> 931 \<and> lower_full u d = [d]) \<and>
      lower_full u 962 = [962] \<and> lower_full u 963 = [963])"

section \<open>The world outside the script\<close>

text \<open>
  The script lists directories, opens files for reading and prints. The world holds
  what a directory listing and a file yield to the script (the names in the directory
  and the text of the file as the text stream delivers it, or the exception that
  \<^verbatim>\<open>os.listdir\<close>, \<^verbatim>\<open>open\<close> or \<^verbatim>\<open>readlines\<close> raises) and the trace of what the run has
  done so far: every attempt to list a directory or to read a file, every call of
  \<^verbatim>\<open>make_subsequences\<close> with the sequence and the label it is given, every line
  printed, and the calls into the libraries. \<open>TrainTestSplit\<close> holds the arrays
  \<^verbatim>\<open>X_train, X_val, y_train, y_val\<close> that the split has made, and \<open>ModelFit\<close> the arrays
  that \<^verbatim>\<open>model.fit\<close> was called with: the training sequences, the training labels and the
  two arrays of \<^verbatim>\<open>validation_data\<close>.
\<close>

datatype event =
    ListDir pystr
  | ReadFile pystr
  | MakeSubsequences "int list" int
  | Print pystr
  | FitTokenizer
  | TextsToSequences
  | FitWordTokenizer
  | TrainTestSplit arrays
  | ModelCompile
  | ModelFit "int ndarray" "int ndarray" "int ndarray" "int ndarray"
  | ModelPredict

record world =
  dirs :: "pystr \<Rightarrow> error + pystr list"
  files :: "pystr \<Rightarrow> error + pystr"
  trace :: "event list"

text \<open>
  A statement of the script maps the world to a result and the new world. An exception
  leaves the script at once: \<open>bind_io\<close> runs the rest only after a normal result, and
  the script has no \<^verbatim>\<open>try\<close> statement, so nothing maps an exception back to a
  normal result.
\<close>

type_synonym 'a io = "world \<Rightarrow> (error + 'a) \<times> world"

definition return_io :: "'a \<Rightarrow> 'a io" where
  "return_io x = (\<lambda>w. (Inr x, w))"

definition bind_io :: "'a io \<Rightarrow> ('a \<Rightarrow> 'b io) \<Rightarrow> 'b io" where
  "bind_io m f = (\<lambda>w. case m w of (Inl e, w') \<Rightarrow> (Inl e, w') | (Inr x, w') \<Rightarrow> f x w')"

definition lift_io :: "error + 'a \<Rightarrow> 'a io" where
  "lift_io r = (\<lambda>w. (r, w))"

definition emit :: "event \<Rightarrow> unit io" where
  "emit e = (\<lambda>w. (Inr (), w\<lparr>trace := trace w @ [e]\<rparr>))"

text \<open>A \<^verbatim>\<open>for\<close> loop over a list, with the variables it updates as \<open>s\<close>.\<close>

fun for_each :: "'a list \<Rightarrow> ('a \<Rightarrow> 's \<Rightarrow> 's io) \<Rightarrow> 's \<Rightarrow> 's io" where
  "for_each [] body s = return_io s"
| "for_each (x # xs) body s = bind_io (body x s) (for_each xs body)"

definition os_listdir :: "pystr \<Rightarrow> pystr list io" where
  "os_listdir path = (\<lambda>w. (dirs w path, w\<lparr>trace := trace w @ [ListDir path]\<rparr>))"

text \<open>\<^verbatim>\<open>with open(file_path, 'r') as f: lines = f.readlines()\<close>\<close>

definition open_readlines :: "pystr \<Rightarrow> pystr list io" where
  "open_readlines file_path =
     (\<lambda>w. (case files w file_path of Inl e \<Rightarrow> Inl e | Inr content \<Rightarrow> Inr (readlines content),
           w\<lparr>trace := trace w @ [ReadFile file_path]\<rparr>))"

definition print :: "pystr \<Rightarrow> unit io" where
  "print line = emit (Print line)"

definition print_lines :: "pystr list \<Rightarrow> unit io" where
  "print_lines lines = for_each lines (\<lambda>line u. print line) ()"

definition preprocess_text :: "unicode_db \<Rightarrow> pystr \<Rightarrow> pystr io" where
  "preprocess_text u file_path =
     bind_io (open_readlines file_path) (\<lambda>lines. return_io (preprocess_lines u lines))"

text \<open>The lines a trace has printed.\<close>

fun printed :: "event list \<Rightarrow> pystr list" where
  "printed [] = []"
| "printed (Print line # es) = line # printed es"
| "printed (e # es) = printed es"

section \<open>The libraries\<close>

text \<open>
  Python's Unicode database, Keras and scikit-learn are not part of the repository;
  what they compute is a parameter of the model. A prediction of the network is a
  32-bit float: a number or NaN. The comparison \<^verbatim>\<open>p > 0.5\<close> is exact on floats and
  false for NaN.
\<close>

datatype score = NaN | Score real

fun above_half :: "score \<Rightarrow> bool" where
  "above_half NaN = False"
| "above_half (Score p) = (p > 1 / 2)"

text \<open>
  \<^item> \<open>unicode\<close>: the Unicode database;
  \<^item> \<open>fit_on_texts\<close>: \<^verbatim>\<open>Tokenizer(char_level=True)\<close> after \<^verbatim>\<open>fit_on_texts\<close> on a text;
  \<^item> \<open>texts_to_sequences\<close>: the indices \<^verbatim>\<open>tokenizer.texts_to_sequences([text])[0]\<close>;
  \<^item> \<open>word_index_size\<close>: \<^verbatim>\<open>len(tokenizer.word_index)\<close>;
  \<^item> \<open>unique_words\<close>: \<^verbatim>\<open>len(word_tokenizer.word_index)\<close> of a word-level tokenizer fitted
    on two texts;
  \<^item> \<open>shuffle\<close>: the permutation of \<open>n\<close> row indices that \<^verbatim>\<open>train_test_split\<close> draws;
  \<^item> \<open>model_summary\<close>: the lines that \<^verbatim>\<open>model.summary()\<close> prints for the network built
    for a tokenizer;
  \<^item> \<open>model_fit\<close>: \<^verbatim>\<open>model.fit\<close> on the training and validation arrays: the lines
    it prints, and the trained network or the exception it raises;
  \<^item> \<open>model_predict\<close>: \<^verbatim>\<open>model.predict\<close> on an array of sequences, which returns the
    predictions or raises.

  What the libraries do to files of their own while they work (Keras and TensorFlow
  write configuration and temporary files) is not part of the world.
\<close>

record ('t, 'm) library =
  unicode :: unicode_db
  fit_on_texts :: "pystr \<Rightarrow> 't"
  texts_to_sequences :: "'t \<Rightarrow> pystr \<Rightarrow> int list"
  word_index_size :: "'t \<Rightarrow> nat"
  unique_words :: "pystr \<Rightarrow> pystr \<Rightarrow> nat"
  shuffle :: "nat \<Rightarrow> nat list"
  model_summary :: "'t \<Rightarrow> pystr list"
  model_fit :: "'t \<Rightarrow> int ndarray \<Rightarrow> int ndarray \<Rightarrow> int ndarray \<Rightarrow> int ndarray
                  \<Rightarrow> pystr list \<times> (error + 'm)"
  model_predict :: "'m \<Rightarrow> int ndarray \<Rightarrow> error + score list"

text \<open>
  The calls into the libraries, each with its event. \<open>ModelCompile\<close> marks that the
  network is built and compiled, \<open>ModelFit\<close> that \<^verbatim>\<open>model.fit\<close> has returned, and
  \<open>ModelPredict\<close> that \<^verbatim>\<open>model.predict\<close> is called.
\<close>

definition tokenizer_fit :: "('t, 'm) library \<Rightarrow> pystr \<Rightarrow> 't io" where
  "tokenizer_fit lib texts = bind_io (emit FitTokenizer) (\<lambda>u. return_io (fit_on_texts lib texts))"

definition tokenizer_sequences :: "('t, 'm) library \<Rightarrow> 't \<Rightarrow> pystr \<Rightarrow> int list io" where
  "tokenizer_sequences lib tokenizer s =
     bind_io (emit TextsToSequences) (\<lambda>u. return_io (texts_to_sequences lib tokenizer s))"

definition word_tokenizer_fit :: "('t, 'm) library \<Rightarrow> pystr \<Rightarrow> pystr \<Rightarrow> nat io" where
  "word_tokenizer_fit lib a b =
     bind_io (emit FitWordTokenizer) (\<lambda>u. return_io (unique_words lib a b))"

definition fit ::
  "('t, 'm) library \<Rightarrow> 't \<Rightarrow> int ndarray \<Rightarrow> int ndarray \<Rightarrow> int ndarray \<Rightarrow> int ndarray \<Rightarrow> 'm io" where
  "fit lib tokenizer X_train y_train X_val y_val =
     (case model_fit lib tokenizer X_train y_train X_val y_val of (progress, outcome) \<Rightarrow>
        bind_io (print_lines progress) (\<lambda>u.
        bind_io (lift_io outcome) (\<lambda>model.
        bind_io (emit (ModelFit X_train y_train X_val y_val)) (\<lambda>u. return_io model))))"

definition predict :: "('t, 'm) library \<Rightarrow> 'm \<Rightarrow> int ndarray \<Rightarrow> score list io" where
  "predict lib model X = bind_io (emit ModelPredict) (\<lambda>u. lift_io (model_predict lib model X))"

section \<open>The script\<close>

text \<open>
  \<^verbatim>\<open>
  # Classes for A/B/Unknown
  A = 0
  B = 1
  UNKNOWN = -1
  \<close>
  \<open>A\<close> and \<open>B\<close> are \<open>class_A\<close> and \<open>class_B\<close> here, a single capital letter being
  a variable in the statements below.
\<close>

definition class_A :: int where
  "class_A = 0"

definition class_B :: int where
  "class_B = 1"

definition UNKNOWN :: int where
  "UNKNOWN = - 1"

text \<open>
  \<^verbatim>\<open>
  all_authorA, all_authorB = '',''
  for x in os.listdir('./papers/A/'):
      all_authorA += preprocess_text('./papers/A/' + x)
  \<close>
  and the same for \<^verbatim>\<open>./papers/B/\<close>.
\<close>

definition read_author :: "unicode_db \<Rightarrow> pystr \<Rightarrow> pystr io" where
  "read_author u dir =
     bind_io (os_listdir dir) (\<lambda>names.
       for_each names
         (\<lambda>x all_author. bind_io (preprocess_text u (dir @ x)) (\<lambda>t. return_io (all_author @ t)))
         [])"

text \<open>\<^verbatim>\<open>s.split(' ')\<close>: the pieces between single blanks, empty ones included.\<close>

fun split_blank_from :: "pystr \<Rightarrow> pystr \<Rightarrow> pystr list" where
  "split_blank_from piece [] = [piece]"
| "split_blank_from piece (c # cs) =
     (if c = 32 then piece # split_blank_from [] cs
      else split_blank_from (piece @ [c]) cs)"

text \<open>\<^verbatim>\<open>'{}'.format(X.shape)\<close>\<close>

definition str_shape :: "nat \<times> nat \<Rightarrow> pystr" where
  "str_shape s = lit ''('' @ str_nat (fst s) @ lit '', '' @ str_nat (snd s) @ lit '')''"

text \<open>
  \<^verbatim>\<open>
  y = model.predict(X_sequences)
  y = y>0.5
  votes_for_authorA = np.sum(y==0)
  votes_for_authorB = np.sum(y==1)
  \<close>
  \<open>np_sum\<close> counts the true entries of a Boolean array; a Boolean equals 0 when it is
  false and 1 when it is true.
\<close>

definition np_sum :: "bool list \<Rightarrow> nat" where
  "np_sum bs = length (filter (\<lambda>b. b) bs)"

definition count_votes :: "score list \<Rightarrow> nat \<times> nat" where
  "count_votes predictions =
     (let y = map above_half predictions;
          votes_for_authorA = np_sum (map (\<lambda>b. of_bool b = (0::int)) y);
          votes_for_authorB = np_sum (map (\<lambda>b. of_bool b = (1::int)) y)
      in (votes_for_authorA, votes_for_authorB))"

text \<open>
  \<^verbatim>\<open>
  print("Paper {} is predicted to have been written by {}, {} to {}".format(
              x.replace('paper_','').replace('.txt',''),
              ("Author A" if votes_for_authorA > votes_for_authorB else "Author B"),
              max(votes_for_authorA, votes_for_authorB), min(votes_for_authorA, votes_for_authorB)))
  \<close>
\<close>

definition attribution_line :: "pystr \<Rightarrow> nat \<Rightarrow> nat \<Rightarrow> pystr" where
  "attribution_line x votes_for_authorA votes_for_authorB =
     lit ''Paper '' @ str_replace (lit ''.txt'') [] (str_replace (lit ''paper_'') [] x) @
     lit '' is predicted to have been written by '' @
     (if votes_for_authorA > votes_for_authorB then lit ''Author A'' else lit ''Author B'') @
     lit '', '' @ str_nat (max votes_for_authorA votes_for_authorB) @
     lit '' to '' @ str_nat (min votes_for_authorA votes_for_authorB)"

text \<open>
  \<open>subsequences\<close> is a call of \<^verbatim>\<open>make_subsequences\<close> with the default
  \<^verbatim>\<open>sequence_length\<close>. The body of the loop over the unknown papers:
  \<^verbatim>\<open>
  unknown = preprocess_text('./papers/Unknown/' + x)
  unknown_long_sequences = tokenizer.texts_to_sequences([unknown])[0]
  X_sequences, _ = make_subsequences(unknown_long_sequences, UNKNOWN)
  X_sequences = X_sequences.reshape((-1,SEQ_LEN))
  \<close>
  followed by the prediction, the count of the votes and the \<^verbatim>\<open>print\<close>.
\<close>

definition subsequences :: "int list \<Rightarrow> int \<Rightarrow> (int ndarray \<times> int ndarray) io" where
  "subsequences long_sequence label =
     bind_io (emit (MakeSubsequences long_sequence label)) (\<lambda>u.
       lift_io (make_subsequences long_sequence label SEQ_LEN))"

definition attribute_paper :: "('t, 'm) library \<Rightarrow> 't \<Rightarrow> 'm \<Rightarrow> pystr \<Rightarrow> unit io" where
  "attribute_paper lib tokenizer model x =
     bind_io (preprocess_text (unicode lib) (lit ''./papers/Unknown/'' @ x)) (\<lambda>unknown.
     bind_io (tokenizer_sequences lib tokenizer unknown) (\<lambda>unknown_long_sequences.
     bind_io (subsequences unknown_long_sequences UNKNOWN) (\<lambda>(X_sequences0, y0).
     bind_io (lift_io (reshape X_sequences0 SEQ_LEN)) (\<lambda>X_sequences.
     bind_io (predict lib model X_sequences) (\<lambda>predictions.
       case count_votes predictions of (votes_for_authorA, votes_for_authorB) \<Rightarrow>
         print (attribution_line x votes_for_authorA votes_for_authorB))))))"

definition attribute_papers :: "('t, 'm) library \<Rightarrow> 't \<Rightarrow> 'm \<Rightarrow> unit io" where
  "attribute_papers lib tokenizer model =
     bind_io (os_listdir (lit ''./papers/Unknown/'')) (\<lambda>names.
       for_each names (\<lambda>x u. attribute_paper lib tokenizer model x) ())"

text \<open>
  The cells of the notebook, from top to bottom. The event \<open>TrainTestSplit\<close> stands
  where the two \<^verbatim>\<open>reshape\<close> calls behind \<^verbatim>\<open>train_test_split\<close> have returned.
\<close>

definition run :: "('t, 'm) library \<Rightarrow> unit io" where
  "run lib =
     bind_io (read_author (unicode lib) (lit ''./papers/A/'')) (\<lambda>all_authorA.
     bind_io (read_author (unicode lib) (lit ''./papers/B/'')) (\<lambda>all_authorB.
     bind_io (print (lit ''AuthorA text length: '' @ str_nat (length all_authorA))) (\<lambda>u.
     bind_io (print (lit ''AuthorB text length: '' @ str_nat (length all_authorB))) (\<lambda>u.
     bind_io (tokenizer_fit lib (all_authorA @ all_authorB)) (\<lambda>tokenizer.
     bind_io (tokenizer_sequences lib tokenizer all_authorA) (\<lambda>authorA_long_sequence.
     bind_io (tokenizer_sequences lib tokenizer all_authorB) (\<lambda>authorB_long_sequence.
     bind_io (subsequences authorA_long_sequence class_A) (\<lambda>(X_authorA, y_authorA).
     bind_io (subsequences authorB_long_sequence class_B) (\<lambda>(X_authorB, y_authorB).
     bind_io (print (lit ''Number of characters: '' @ str_nat (word_index_size lib tokenizer))) (\<lambda>u.
     bind_io (print (lit ''author A sequences: '' @ str_shape (shape X_authorA))) (\<lambda>u.
     bind_io (print (lit ''author B sequences: '' @ str_shape (shape X_authorB))) (\<lambda>u.
     bind_io (word_tokenizer_fit lib all_authorA all_authorB) (\<lambda>unique.
     bind_io (print (lit ''Total word count:  '' @
                str_nat (length (split_blank_from [] (all_authorA @ lit '' '' @ all_authorB))))) (\<lambda>u.
     bind_io (print (lit ''Total number of unique words:  '' @ str_nat unique)) (\<lambda>u.
     bind_io (lift_io (train_validation_sets (shuffle lib (nrows X_authorA + nrows X_authorB))
                X_authorA y_authorA X_authorB y_authorB)) (\<lambda>(X_train, X_val, y_train, y_val).
     bind_io (emit (TrainTestSplit (X_train, X_val, y_train, y_val))) (\<lambda>u.
     bind_io (print (lit ''X_train shape: '' @ str_shape (shape X_train))) (\<lambda>u.
     bind_io (print (lit ''y_train shape: '' @ str_shape (shape y_train))) (\<lambda>u.
     bind_io (print (lit ''X_validate shape: '' @ str_shape (shape X_val))) (\<lambda>u.
     bind_io (print (lit ''y_validate shape: '' @ str_shape (shape y_val))) (\<lambda>u.
     bind_io (emit ModelCompile) (\<lambda>u.
     bind_io (print_lines (model_summary lib tokenizer)) (\<lambda>u.
     bind_io (fit lib tokenizer X_train y_train X_val y_val) (\<lambda>model.
       attribute_papers lib tokenizer model))))))))))))))))))))))))"

section \<open>The pipeline of the specification\<close>

text \<open>
  The specification describes the script as one linear pipeline: preprocess, tokenize,
  split, train, vote-predict. Here each stage is a function of what earlier stages have
  returned and of nothing else: the two long texts, the tokenizer with the arrays of the
  two authors, the training and validation arrays, and the trained network.
  \<open>training\<close> is the first four stages, and \<open>pipeline\<close> puts the votes behind it. That
  the script is this pipeline is a theorem below.
\<close>

definition preprocess_stage :: "('t, 'm) library \<Rightarrow> (pystr \<times> pystr) io" where
  "preprocess_stage lib =
     bind_io (read_author (unicode lib) (lit ''./papers/A/'')) (\<lambda>all_authorA.
     bind_io (read_author (unicode lib) (lit ''./papers/B/'')) (\<lambda>all_authorB.
     bind_io (print (lit ''AuthorA text length: '' @ str_nat (length all_authorA))) (\<lambda>u.
     bind_io (print (lit ''AuthorB text length: '' @ str_nat (length all_authorB))) (\<lambda>u.
       return_io (all_authorA, all_authorB)))))"

definition tokenize_stage ::
  "('t, 'm) library \<Rightarrow> pystr \<Rightarrow> pystr \<Rightarrow>
     ('t \<times> int ndarray \<times> int ndarray \<times> int ndarray \<times> int ndarray) io" where
  "tokenize_stage lib all_authorA all_authorB =
     bind_io (tokenizer_fit lib (all_authorA @ all_authorB)) (\<lambda>tokenizer.
     bind_io (tokenizer_sequences lib tokenizer all_authorA) (\<lambda>authorA_long_sequence.
     bind_io (tokenizer_sequences lib tokenizer all_authorB) (\<lambda>authorB_long_sequence.
     bind_io (subsequences authorA_long_sequence class_A) (\<lambda>(X_authorA, y_authorA).
     bind_io (subsequences authorB_long_sequence class_B) (\<lambda>(X_authorB, y_authorB).
     bind_io (print (lit ''Number of characters: '' @ str_nat (word_index_size lib tokenizer))) (\<lambda>u.
     bind_io (print (lit ''author A sequences: '' @ str_shape (shape X_authorA))) (\<lambda>u.
     bind_io (print (lit ''author B sequences: '' @ str_shape (shape X_authorB))) (\<lambda>u.
     bind_io (word_tokenizer_fit lib all_authorA all_authorB) (\<lambda>unique.
     bind_io (print (lit ''Total word count:  '' @
                str_nat (length (split_blank_from [] (all_authorA @ lit '' '' @ all_authorB))))) (\<lambda>u.
     bind_io (print (lit ''Total number of unique words:  '' @ str_nat unique)) (\<lambda>u.
       return_io (tokenizer, X_authorA, y_authorA, X_authorB, y_authorB))))))))))))"

definition split_stage ::
  "('t, 'm) library \<Rightarrow> int ndarray \<Rightarrow> int ndarray \<Rightarrow> int ndarray \<Rightarrow> int ndarray \<Rightarrow> arrays io" where
  "split_stage lib X_authorA y_authorA X_authorB y_authorB =
     bind_io (lift_io (train_validation_sets (shuffle lib (nrows X_authorA + nrows X_authorB))
                X_authorA y_authorA X_authorB y_authorB)) (\<lambda>(X_train, X_val, y_train, y_val).
     bind_io (emit (TrainTestSplit (X_train, X_val, y_train, y_val))) (\<lambda>u.
     bind_io (print (lit ''X_train shape: '' @ str_shape (shape X_train))) (\<lambda>u.
     bind_io (print (lit ''y_train shape: '' @ str_shape (shape y_train))) (\<lambda>u.
     bind_io (print (lit ''X_validate shape: '' @ str_shape (shape X_val))) (\<lambda>u.
     bind_io (print (lit ''y_validate shape: '' @ str_shape (shape y_val))) (\<lambda>u.
       return_io (X_train, X_val, y_train, y_val)))))))"

definition train_stage ::
  "('t, 'm) library \<Rightarrow> 't \<Rightarrow> int ndarray \<Rightarrow> int ndarray \<Rightarrow> int ndarray \<Rightarrow> int ndarray \<Rightarrow> 'm io" where
  "train_stage lib tokenizer X_train y_train X_val y_val =
     bind_io (emit ModelCompile) (\<lambda>u.
     bind_io (print_lines (model_summary lib tokenizer)) (\<lambda>u.
       fit lib tokenizer X_train y_train X_val y_val))"

definition vote_predict_stage :: "('t, 'm) library \<Rightarrow> 't \<Rightarrow> 'm \<Rightarrow> unit io" where
  "vote_predict_stage lib tokenizer model = attribute_papers lib tokenizer model"

definition training :: "('t, 'm) library \<Rightarrow> ('t \<times> 'm) io" where
  "training lib =
     bind_io (preprocess_stage lib) (\<lambda>(all_authorA, all_authorB).
     bind_io (tokenize_stage lib all_authorA all_authorB)
       (\<lambda>(tokenizer, X_authorA, y_authorA, X_authorB, y_authorB).
     bind_io (split_stage lib X_authorA y_authorA X_authorB y_authorB)
       (\<lambda>(X_train, X_val, y_train, y_val).
     bind_io (train_stage lib tokenizer X_train y_train X_val y_val) (\<lambda>model.
       return_io (tokenizer, model)))))"

definition pipeline :: "('t, 'm) library \<Rightarrow> unit io" where
  "pipeline lib =
     bind_io (training lib) (\<lambda>(tokenizer, model). vote_predict_stage lib tokenizer model)"

section \<open>What a run does\<close>

text \<open>
  The operations of a trace that raise, given what the directories and the files
  yield: listing a directory or reading a file that yields an exception,
  \<^verbatim>\<open>make_subsequences\<close> on a sequence shorter than \<open>SEQ_LEN - 1\<close>, where \<^verbatim>\<open>np.zeros\<close>
  is given a negative dimension, and \<^verbatim>\<open>make_subsequences\<close> on a sequence of \<open>SEQ_LEN\<close>
  items or more of which one, or the label, is beyond \<^verbatim>\<open>float64\<close>.
\<close>

fun raises ::
  "(pystr \<Rightarrow> error + pystr list) \<Rightarrow> (pystr \<Rightarrow> error + pystr) \<Rightarrow> event \<Rightarrow> error option" where
  "raises d f (ListDir path) = (case d path of Inl e \<Rightarrow> Some e | Inr names \<Rightarrow> None)"
| "raises d f (ReadFile path) = (case f path of Inl e \<Rightarrow> Some e | Inr content \<Rightarrow> None)"
| "raises d f (MakeSubsequences long_sequence label) =
     (if int (length long_sequence) < SEQ_LEN - 1 then Some ValueError
      else if SEQ_LEN \<le> int (length long_sequence) \<and>
              (list_ex (\<lambda>n. \<not> fits_float64 n) long_sequence \<or> \<not> fits_float64 label)
      then Some OverflowError
      else None)"
| "raises d f ev = None"

text \<open>
  A trace aborts at its first error when an operation that raises is the last thing in
  the trace and its exception is the outcome \<open>r\<close> of the run (\<open>None\<close> for a run that ends
  normally).
\<close>

fun aborts_at_first_error ::
  "(pystr \<Rightarrow> error + pystr list) \<Rightarrow> (pystr \<Rightarrow> error + pystr) \<Rightarrow> event list \<Rightarrow>
     error option \<Rightarrow> bool" where
  "aborts_at_first_error d f [] r = True"
| "aborts_at_first_error d f (ev # es) r =
     (case raises d f ev of
        None \<Rightarrow> aborts_at_first_error d f es r
      | Some e \<Rightarrow> es = [] \<and> r = Some e)"

definition outcome :: "error + 'a \<Rightarrow> error option" where
  "outcome r = (case r of Inl e \<Rightarrow> Some e | Inr x \<Rightarrow> None)"

text \<open>
  The stages of the pipeline, and the stage a run is in after an event: the tokenizer
  is fitted at the end of preprocessing, the data are split at the end of
  tokenizing, the network is built after the split, and the votes follow the return of
  \<^verbatim>\<open>model.fit\<close>. The stages \<open>Split\<close> and \<open>Train\<close> keep the arrays that the split has
  made, and \<^verbatim>\<open>model.fit\<close> leads on only when it was called with these: \<^verbatim>\<open>X_train\<close> and
  \<^verbatim>\<open>y_train\<close> to train on, \<^verbatim>\<open>X_val\<close> and \<^verbatim>\<open>y_val\<close> to validate. An event that does not
  belong to the stage has no successor.
\<close>

datatype stage = Preprocess | Tokenize | Split arrays | Train arrays | VotePredict

fun next_stage :: "stage \<Rightarrow> event \<Rightarrow> stage option" where
  "next_stage Preprocess (ListDir path) = Some Preprocess"
| "next_stage Preprocess (ReadFile path) = Some Preprocess"
| "next_stage Preprocess (Print line) = Some Preprocess"
| "next_stage Preprocess FitTokenizer = Some Tokenize"
| "next_stage Tokenize TextsToSequences = Some Tokenize"
| "next_stage Tokenize (MakeSubsequences long_sequence label) = Some Tokenize"
| "next_stage Tokenize (Print line) = Some Tokenize"
| "next_stage Tokenize FitWordTokenizer = Some Tokenize"
| "next_stage Tokenize (TrainTestSplit made) = Some (Split made)"
| "next_stage (Split made) (Print line) = Some (Split made)"
| "next_stage (Split made) ModelCompile = Some (Train made)"
| "next_stage (Train made) (Print line) = Some (Train made)"
| "next_stage (Train made) (ModelFit X y X_validate y_validate) =
     (if made = (X, X_validate, y, y_validate) then Some VotePredict else None)"
| "next_stage VotePredict (ListDir path) = Some VotePredict"
| "next_stage VotePredict (ReadFile path) = Some VotePredict"
| "next_stage VotePredict TextsToSequences = Some VotePredict"
| "next_stage VotePredict (MakeSubsequences long_sequence label) = Some VotePredict"
| "next_stage VotePredict ModelPredict = Some VotePredict"
| "next_stage VotePredict (Print line) = Some VotePredict"
| "next_stage s ev = None"

fun stages_from :: "stage \<Rightarrow> event list \<Rightarrow> stage option" where
  "stages_from s [] = Some s"
| "stages_from s (ev # es) =
     (case next_stage s ev of None \<Rightarrow> None | Some s' \<Rightarrow> stages_from s' es)"

text \<open>
  No event of the kind \<open>b\<close> stands in a trace before the first event of the kind \<open>a\<close>.
\<close>

fun none_before :: "(event \<Rightarrow> bool) \<Rightarrow> (event \<Rightarrow> bool) \<Rightarrow> event list \<Rightarrow> bool" where
  "none_before b a [] = True"
| "none_before b a (ev # es) = (a ev \<or> (\<not> b ev \<and> none_before b a es))"

fun is_model_fit :: "event \<Rightarrow> bool" where
  "is_model_fit (ModelFit X y X_validate y_validate) = True"
| "is_model_fit ev = False"

text \<open>
  Every \<^verbatim>\<open>model.fit\<close> of a trace is on the training split: the arrays it is called
  with are those that the split before it has made, \<^verbatim>\<open>X_train\<close> and \<^verbatim>\<open>y_train\<close> as the
  training data and \<^verbatim>\<open>X_val\<close> and \<^verbatim>\<open>y_val\<close> as the validation data. The first
  argument is the split made so far.
\<close>

fun fit_on_split :: "arrays option \<Rightarrow> event list \<Rightarrow> bool" where
  "fit_on_split made [] = True"
| "fit_on_split made (TrainTestSplit arrays # es) = fit_on_split (Some arrays) es"
| "fit_on_split made (ModelFit X y X_validate y_validate # es) =
     (made = Some (X, X_validate, y, y_validate) \<and> fit_on_split made es)"
| "fit_on_split made (ev # es) = fit_on_split made es"

text \<open>
  A statement \<open>m\<close> satisfies \<open>N\<close> and \<open>F\<close> when, in a world with the directories \<open>d\<close> and
  the files \<open>f\<close>, it leaves both as they are and adds events to the trace that satisfy
  \<open>N\<close> if it ends normally and \<open>F\<close>, with the exception, if it raises.
\<close>

definition sat ::
  "(pystr \<Rightarrow> error + pystr list) \<Rightarrow> (pystr \<Rightarrow> error + pystr) \<Rightarrow>
   (event list \<Rightarrow> bool) \<Rightarrow> (event list \<Rightarrow> error \<Rightarrow> bool) \<Rightarrow> 'a io \<Rightarrow> bool" where
  "sat d f N F m =
     (\<forall>w. dirs w = d \<and> files w = f \<longrightarrow>
        (case m w of (r, w') \<Rightarrow>
           dirs w' = d \<and> files w' = f \<and>
           (\<exists>es. trace w' = trace w @ es \<and>
                 (case r of Inr x \<Rightarrow> N es | Inl e \<Rightarrow> F es e))))"

text \<open>
  The pairs of predicates that every statement of the script satisfies: closed ones
  that hold of each operation of the script by itself.
\<close>

definition closed :: "(event list \<Rightarrow> bool) \<Rightarrow> (event list \<Rightarrow> error \<Rightarrow> bool) \<Rightarrow> bool" where
  "closed N F = (N [] \<and> (\<forall>a b. N a \<and> N b \<longrightarrow> N (a @ b)) \<and>
                 (\<forall>a b e. N a \<and> F b e \<longrightarrow> F (a @ b) e))"

definition admits ::
  "(pystr \<Rightarrow> error + pystr list) \<Rightarrow> (pystr \<Rightarrow> error + pystr) \<Rightarrow>
   (event list \<Rightarrow> bool) \<Rightarrow> (event list \<Rightarrow> error \<Rightarrow> bool) \<Rightarrow> bool" where
  "admits d f N F =
     (closed N F \<and> (\<forall>e. F [] e) \<and>
      (\<forall>ev. case raises d f ev of None \<Rightarrow> N [ev] | Some e \<Rightarrow> F [ev] e))"

text \<open>
  A statement runs from stage \<open>p\<close> to stage \<open>q\<close> when the events it adds lead from
  \<open>p\<close> to \<open>q\<close> if it ends normally, and belong to the stages from \<open>p\<close> on if it raises.
\<close>

definition runs_from ::
  "(pystr \<Rightarrow> error + pystr list) \<Rightarrow> (pystr \<Rightarrow> error + pystr) \<Rightarrow>
   stage \<Rightarrow> stage \<Rightarrow> 'a io \<Rightarrow> bool" where
  "runs_from d f p q m =
     sat d f (\<lambda>es. stages_from p es = Some q) (\<lambda>es e. stages_from p es \<noteq> None) m"

section \<open>The votes of a paper\<close>

text \<open>
  The votes of an unknown paper with a given text, for a tokenizer and a trained
  network: the number of its subsequences that the network predicts as author A (the
  prediction is not above 0.5) and the number that it predicts as author B (it is).
  There are none when the text is too short for \<^verbatim>\<open>make_subsequences\<close> or the network
  raises. \<open>unknown_votes\<close> are the votes of the paper \<open>x\<close> of \<^verbatim>\<open>./papers/Unknown/\<close>.
\<close>

definition paper_votes :: "('t, 'm) library \<Rightarrow> 't \<Rightarrow> 'm \<Rightarrow> pystr \<Rightarrow> (nat \<times> nat) option" where
  "paper_votes lib tokenizer model content =
     (case make_subsequences
             (texts_to_sequences lib tokenizer
                (preprocess_lines (unicode lib) (readlines content))) UNKNOWN SEQ_LEN of
        Inl e \<Rightarrow> None
      | Inr (X, y) \<Rightarrow>
          (case model_predict lib model X of
             Inl e \<Rightarrow> None
           | Inr predictions \<Rightarrow>
               Some (length (filter (\<lambda>p. \<not> above_half p) predictions),
                     length (filter above_half predictions))))"

definition unknown_votes ::
  "('t, 'm) library \<Rightarrow> 't \<Rightarrow> 'm \<Rightarrow> world \<Rightarrow> pystr \<Rightarrow> (nat \<times> nat) option" where
  "unknown_votes lib tokenizer model w x =
     (case files w (lit ''./papers/Unknown/'' @ x) of
        Inl e \<Rightarrow> None
      | Inr content \<Rightarrow> paper_votes lib tokenizer model content)"

section \<open>Examples\<close>

text \<open>
  A Unicode database for examples. It says of the code point \<open>0x3D2\<close>, the Greek
  upsilon with hook symbol, what Python's database says: \<^verbatim>\<open>str.isupper\<close> holds of it
  and it has no lower-case form but itself. The examples use no other code point from
  256 on; the database leaves these as they are.
\<close>

definition example_unicode :: unicode_db where
  "example_unicode =
     \<lparr>wide_lower = (\<lambda>c. [c]), wide_isupper = (\<lambda>c. c = 978), final_sigma = (\<lambda>s i. False)\<rparr>"

text \<open>
  A world for examples in which no directory has an entry, every file has the given
  text, and nothing has happened yet.
\<close>

definition single_file_world :: "pystr \<Rightarrow> world" where
  "single_file_world content = \<lparr>dirs = (\<lambda>path. Inr []), files = (\<lambda>path. Inr content), trace = []\<rparr>"

text \<open>
  Libraries for examples: the token of a character is its code point, the network
  predicts 0.75 for a subsequence that starts with the letter \<^verbatim>\<open>t\<close>, NaN for one that
  starts with a blank and 0.25 for any other, and the permutation drawn for the split
  is the identity.
\<close>

definition example_library :: "(unit, unit) library" where
  "example_library =
     \<lparr>unicode = example_unicode,
      fit_on_texts = (\<lambda>texts. ()),
      texts_to_sequences = (\<lambda>tokenizer s. map int s),
      word_index_size = (\<lambda>tokenizer. 0),
      unique_words = (\<lambda>a b. 0),
      shuffle = (\<lambda>n. [0..<n]),
      model_summary = (\<lambda>tokenizer. []),
      model_fit = (\<lambda>tokenizer X_train y_train X_val y_val. ([], Inr ())),
      model_predict =
        (\<lambda>model X. Inr (map (\<lambda>r. if hd r = 116 then Score (3 / 4)
                                   else if hd r = 32 then NaN else Score (1 / 4)) (rows X)))\<rparr>"

text \<open>
  A world with two unknown papers, \<^verbatim>\<open>paper_1.txt\<close> with 31 characters behind its
  first line and \<^verbatim>\<open>paper_2.txt\<close> with 32.
\<close>

definition example_world :: world where
  "example_world =
     \<lparr>dirs = (\<lambda>path. if path = lit ''./papers/Unknown/''
                      then Inr [lit ''paper_1.txt'', lit ''paper_2.txt'']
                      else Inl (OSError ''FileNotFoundError'')),
      files = (\<lambda>path.
         if path = lit ''./papers/Unknown/paper_1.txt''
         then Inr (lit ''No. 1'' @ [newline] @ lit ''to the people of new york state'')
         else if path = lit ''./papers/Unknown/paper_2.txt''
         then Inr (lit ''No. 2'' @ [newline] @ lit ''To the People of New York State.'')
         else Inl (OSError ''FileNotFoundError'')),
      trace = []\<rparr>"

section \<open>Properties of float64 cells\<close>

lemma excess_bits_small: "m < 2 ^ 53 \<Longrightarrow> excess_bits m = 0"
  by (simp add: excess_bits.simps)

lemma round_float64_small:
  assumes "\<bar>n\<bar> < 2 ^ 53"
  shows "round_float64 n = n"
proof -
  have "nat \<bar>n\<bar> < 2 ^ 53"
    using assms by (simp add: nat_less_iff)
  then have "excess_bits (nat \<bar>n\<bar>) = 0"
    by (rule excess_bits_small)
  then have "round_float64 n = sgn n * \<bar>n\<bar>"
    by (simp add: round_float64_def Let_def)
  then show ?thesis
    by (simp add: mult_sgn_abs)
qed

lemma fits_float64_small: "\<bar>n\<bar> < 2 ^ 53 \<Longrightarrow> fits_float64 n"
  by (simp add: fits_float64_def)

lemma exact_float64_small: "\<bar>n\<bar> < 2 ^ 53 \<Longrightarrow> exact_float64 n"
  by (simp add: exact_float64_def float64_of_int_def fits_float64_small round_float64_small)

lemma exact_float64_fits: "exact_float64 n \<Longrightarrow> fits_float64 n"
  by (simp add: exact_float64_def float64_of_int_def split: if_splits)

lemma exact_float64_round: "exact_float64 n \<Longrightarrow> round_float64 n = n"
  by (simp add: exact_float64_def float64_of_int_def split: if_splits)

lemma float64_list_fits: "list_all fits_float64 v \<Longrightarrow> float64_list v = Inr (map round_float64 v)"
  by (induction v) (simp_all add: float64_of_int_def)

lemma float64_list_overflow: "\<not> list_all fits_float64 v \<Longrightarrow> float64_list v = Inl OverflowError"
proof (induction v)
  case Nil
  then show ?case by simp
next
  case (Cons n ns)
  then show ?case
    by (cases "fits_float64 n") (simp_all add: float64_of_int_def)
qed

lemma map_round_exact: "list_all exact_float64 v \<Longrightarrow> map round_float64 v = v"
  by (induction v) (simp_all add: exact_float64_round)

section \<open>Properties of make_subsequences\<close>

lemma py_slice_window:
  "0 \<le> sl \<Longrightarrow> int i + sl \<le> int (length xs) \<Longrightarrow>
   py_slice xs (int i) (int i + sl) = take (nat sl) (drop i xs)"
proof -
  assume a: "0 \<le> sl" "int i + sl \<le> int (length xs)"
  then have "nat (int i + sl) - i = nat sl" "i \<le> length xs"
    by linarith+
  with a show ?thesis
    by (simp add: py_slice_def clip_index_def Let_def)
qed

lemma length_py_slice_window:
  "0 \<le> sl \<Longrightarrow> int i + sl \<le> int (length xs) \<Longrightarrow>
   length (py_slice xs (int i) (int i + sl)) = nat sl"
  by (simp add: py_slice_window)

lemma subsequences_loop_rows:
  assumes "0 \<le> sl" "int n + sl \<le> int (length ls) + 1"
    and "nrows X = n" "length (rows X) = n" "ncols X = nat sl"
    and "nrows y = n" "length (rows y) = n"
    and "k \<le> n"
    and "\<And>i. k \<le> i \<Longrightarrow> i < n \<Longrightarrow> list_all fits_float64 (py_slice ls (int i) (int i + sl))"
    and "fits_float64 label"
  shows "subsequences_loop ls label sl [k..<n] (X, y) =
     Inr (X\<lparr>rows := take k (rows X) @
                 map (\<lambda>i. map round_float64 (py_slice ls (int i) (int i + sl))) [k..<n]\<rparr>,
          y\<lparr>rows := take k (rows y) @
                 replicate (n - k) (replicate (ncols y) (round_float64 label))\<rparr>)"
  using assms
proof (induction "n - k" arbitrary: k X y)
  case 0
  then show ?case by simp
next
  case (Suc d)
  then have kn: "k < n" by simp
  let ?w = "py_slice ls (int k) (int k + sl)"
  let ?X = "X\<lparr>rows := (rows X)[k := map round_float64 ?w]\<rparr>"
  let ?y = "y\<lparr>rows := (rows y)[k := replicate (ncols y) (round_float64 label)]\<rparr>"
  have lw: "length ?w = nat sl"
    using Suc.prems kn by (intro length_py_slice_window) auto
  have fw: "float64_list ?w = Inr (map round_float64 ?w)"
    using Suc.prems(9) [of k] kn by (simp add: float64_list_fits)
  have step: "subsequences_loop ls label sl [k..<n] (X, y) =
      subsequences_loop ls label sl [Suc k..<n] (?X, ?y)"
    using kn lw fw Suc.prems(3-7,10)
    by (simp add: upt_conv_Cons setitem_row_def setitem_scalar_def float64_of_int_def)
  have ih: "subsequences_loop ls label sl [Suc k..<n] (?X, ?y) =
     Inr (?X\<lparr>rows := take (Suc k) (rows ?X) @
                   map (\<lambda>i. map round_float64 (py_slice ls (int i) (int i + sl))) [Suc k..<n]\<rparr>,
          ?y\<lparr>rows := take (Suc k) (rows ?y) @
                   replicate (n - Suc k) (replicate (ncols ?y) (round_float64 label))\<rparr>)"
    using Suc.hyps(2) Suc.prems kn by (intro Suc.hyps(1)) auto
  have tX: "take (Suc k) (rows ?X) = take k (rows X) @ [map round_float64 ?w]"
    using kn Suc.prems by (simp add: take_Suc_conv_app_nth)
  have ty: "take (Suc k) (rows ?y) = take k (rows y) @ [replicate (ncols y) (round_float64 label)]"
    using kn Suc.prems by (simp add: take_Suc_conv_app_nth)
  have rep: "replicate (n - k) (replicate (ncols y) (round_float64 label)) =
      replicate (ncols y) (round_float64 label) #
      replicate (n - Suc k) (replicate (ncols y) (round_float64 label))"
    using kn by (simp add: Suc_diff_Suc flip: replicate_Suc)
  show ?case
    unfolding step ih tX ty rep using kn by (simp add: upt_conv_Cons)
qed

lemma subsequences_loop_overflow:
  assumes "0 \<le> sl" "int n + sl \<le> int (length ls) + 1"
    and "nrows X = n" "ncols X = nat sl" "nrows y = n"
    and "k < n"
    and "(\<exists>i. k \<le> i \<and> i < n \<and> \<not> list_all fits_float64 (py_slice ls (int i) (int i + sl))) \<or>
         \<not> fits_float64 label"
  shows "subsequences_loop ls label sl [k..<n] (X, y) = Inl OverflowError"
  using assms
proof (induction "n - k" arbitrary: k X y)
  case 0
  then show ?case by simp
next
  case (Suc d)
  let ?w = "py_slice ls (int k) (int k + sl)"
  have kn: "k < n" by (rule Suc.prems(6))
  have lw: "length ?w = nat sl"
    using Suc.prems kn by (intro length_py_slice_window) auto
  show ?case
  proof (cases "list_all fits_float64 ?w")
    case False
    then have "float64_list ?w = Inl OverflowError"
      by (rule float64_list_overflow)
    then show ?thesis
      using kn lw Suc.prems(3,4) by (simp add: upt_conv_Cons setitem_row_def)
  next
    case fitw: True
    then have fw: "float64_list ?w = Inr (map round_float64 ?w)"
      by (rule float64_list_fits)
    show ?thesis
    proof (cases "fits_float64 label")
      case False
      then show ?thesis
        using kn lw fw Suc.prems(3,4,5)
        by (simp add: upt_conv_Cons setitem_row_def setitem_scalar_def float64_of_int_def)
    next
      case True
      let ?X = "X\<lparr>rows := (rows X)[k := map round_float64 ?w]\<rparr>"
      let ?y = "y\<lparr>rows := (rows y)[k := replicate (ncols y) (round_float64 label)]\<rparr>"
      from True Suc.prems(7) obtain i
        where i: "k \<le> i" "i < n" "\<not> list_all fits_float64 (py_slice ls (int i) (int i + sl))"
        by blast
      with fitw have "i \<noteq> k"
        by auto
      with i have ki: "Suc k \<le> i" "Suc k < n"
        by simp_all
      have step: "subsequences_loop ls label sl [k..<n] (X, y) =
          subsequences_loop ls label sl [Suc k..<n] (?X, ?y)"
        using kn lw fw True Suc.prems(3,4,5)
        by (simp add: upt_conv_Cons setitem_row_def setitem_scalar_def float64_of_int_def)
      have "subsequences_loop ls label sl [Suc k..<n] (?X, ?y) = Inl OverflowError"
        using Suc.hyps(2) Suc.prems(1-5) ki i by (intro Suc.hyps(1)) auto
      with step show ?thesis
        by simp
    qed
  qed
qed

lemma window_fits:
  assumes "sl = 0 \<or> list_all fits_float64 ls"
    and "0 \<le> sl" "int i + sl \<le> int (length ls)"
  shows "list_all fits_float64 (py_slice ls (int i) (int i + sl))"
proof -
  have w: "py_slice ls (int i) (int i + sl) = take (nat sl) (drop i ls)"
    using assms(2,3) by (rule py_slice_window)
  have "set (take (nat sl) (drop i ls)) \<subseteq> set ls"
    by (meson set_take_subset set_drop_subset subset_trans)
  with assms(1) show ?thesis
    unfolding w by (auto simp: list_all_iff)
qed

lemma make_subsequences_result:
  assumes "0 \<le> sl" "sl \<le> int (length ls)"
    and "sl = 0 \<or> list_all fits_float64 ls"
    and "fits_float64 label"
  shows "make_subsequences ls label sl =
     Inr (\<lparr>nrows = length ls - nat sl + 1, ncols = nat sl,
           rows = map (\<lambda>i. map round_float64 (take (nat sl) (drop i ls)))
                    [0..<length ls - nat sl + 1]\<rparr>,
          \<lparr>nrows = length ls - nat sl + 1, ncols = 1,
           rows = replicate (length ls - nat sl + 1) [round_float64 label]\<rparr>)"
proof -
  define n where "n = length ls - nat sl + 1"
  define X0 :: "int ndarray"
    where "X0 = \<lparr>nrows = n, ncols = nat sl, rows = replicate n (replicate (nat sl) 0)\<rparr>"
  define y0 :: "int ndarray"
    where "y0 = \<lparr>nrows = n, ncols = 1, rows = replicate n (replicate 1 0)\<rparr>"
  have n: "nat (int (length ls) - sl + 1) = n"
    using assms(1,2) unfolding n_def by linarith
  have bound: "int n + sl \<le> int (length ls) + 1"
    using assms(1,2) unfolding n_def by linarith
  have zX: "np_zeros (int (length ls) - sl + 1) sl = Inr X0"
    using assms(1,2) n by (simp add: np_zeros_def X0_def)
  have zy: "np_zeros (int n) 1 = Inr y0"
    by (simp add: np_zeros_def y0_def)
  have win: "map (\<lambda>i. map round_float64 (py_slice ls (int i) (int i + sl))) [0..<n] =
      map (\<lambda>i. map round_float64 (take (nat sl) (drop i ls))) [0..<n]"
  proof (intro map_cong refl arg_cong [where f = "map round_float64"] py_slice_window)
    show "0 \<le> sl" by (rule assms(1))
    show "int i + sl \<le> int (length ls)" if "i \<in> set [0..<n]" for i
      using that bound by simp
  qed
  have fit: "list_all fits_float64 (py_slice ls (int i) (int i + sl))" if "i < n" for i
    using assms(3,1) that bound by (intro window_fits) simp_all
  have loop: "subsequences_loop ls label sl [0..<n] (X0, y0) =
     Inr (X0\<lparr>rows := take 0 (rows X0) @
                  map (\<lambda>i. map round_float64 (py_slice ls (int i) (int i + sl))) [0..<n]\<rparr>,
          y0\<lparr>rows := take 0 (rows y0) @
                  replicate (n - 0) (replicate (ncols y0) (round_float64 label))\<rparr>)"
    using assms(1) bound fit assms(4)
    by (intro subsequences_loop_rows) (simp_all add: X0_def y0_def)
  have "make_subsequences ls label sl = subsequences_loop ls label sl [0..<n] (X0, y0)"
    by (simp add: make_subsequences_def Let_def zX zy X0_def)
  also have "\<dots> = Inr (\<lparr>nrows = n, ncols = nat sl,
           rows = map (\<lambda>i. map round_float64 (take (nat sl) (drop i ls))) [0..<n]\<rparr>,
          \<lparr>nrows = n, ncols = 1, rows = replicate n [round_float64 label]\<rparr>)"
    unfolding loop win by (simp add: X0_def y0_def)
  finally show ?thesis
    unfolding n_def .
qed

lemma make_subsequences_overflow:
  assumes "0 \<le> sl" "sl \<le> int (length ls)"
    and "(0 < sl \<and> \<not> list_all fits_float64 ls) \<or> \<not> fits_float64 label"
  shows "make_subsequences ls label sl = Inl OverflowError"
proof -
  define n where "n = length ls - nat sl + 1"
  define X0 :: "int ndarray"
    where "X0 = \<lparr>nrows = n, ncols = nat sl, rows = replicate n (replicate (nat sl) 0)\<rparr>"
  define y0 :: "int ndarray"
    where "y0 = \<lparr>nrows = n, ncols = 1, rows = replicate n (replicate 1 0)\<rparr>"
  have n: "nat (int (length ls) - sl + 1) = n"
    using assms(1,2) unfolding n_def by linarith
  have bound: "int n + sl \<le> int (length ls) + 1"
    using assms(1,2) unfolding n_def by linarith
  have zX: "np_zeros (int (length ls) - sl + 1) sl = Inr X0"
    using assms(1,2) n by (simp add: np_zeros_def X0_def)
  have zy: "np_zeros (int n) 1 = Inr y0"
    by (simp add: np_zeros_def y0_def)
  have bad: "(\<exists>i. 0 \<le> i \<and> i < n \<and>
                \<not> list_all fits_float64 (py_slice ls (int i) (int i + sl))) \<or>
             \<not> fits_float64 label"
  proof (cases "fits_float64 label")
    case False
    then show ?thesis by simp
  next
    case True
    with assms(3) have sl: "0 < sl" and "\<not> list_all fits_float64 ls"
      by simp_all
    then obtain j where j: "j < length ls" "\<not> fits_float64 (ls ! j)"
      by (auto simp: list_all_length)
    define i where "i = min j (length ls - nat sl)"
    have i: "i < n" "i \<le> j" "j < i + nat sl" "int i + sl \<le> int (length ls)"
      using j(1) sl assms(2) unfolding i_def n_def by linarith+
    have w: "py_slice ls (int i) (int i + sl) = take (nat sl) (drop i ls)"
      using assms(1) i(4) by (rule py_slice_window)
    have "take (nat sl) (drop i ls) ! (j - i) = ls ! j"
      using i j(1) by simp
    moreover have "j - i < length (take (nat sl) (drop i ls))"
      using i j(1) by simp
    ultimately have "\<not> list_all fits_float64 (take (nat sl) (drop i ls))"
      using j(2) unfolding list_all_length by metis
    with i(1) w show ?thesis
      by auto
  qed
  have "subsequences_loop ls label sl [0..<n] (X0, y0) = Inl OverflowError"
    using assms(1) bound bad
    by (intro subsequences_loop_overflow) (simp_all add: X0_def y0_def n_def)
  then show ?thesis
    by (simp add: make_subsequences_def Let_def zX zy X0_def)
qed

lemma make_subsequences_negative_length:
  "sl < 0 \<Longrightarrow> make_subsequences ls label sl = Inl ValueError"
  by (simp add: make_subsequences_def np_zeros_def)

text \<open>
  C3, as stated, does not hold: \<^verbatim>\<open>make_subsequences\<close> stores the items in \<^verbatim>\<open>float64\<close>
  cells. The sequence \<^verbatim>\<open>[9007199254740993]\<close> (\<open>2 ^ 53 + 1\<close>) with
  \<^verbatim>\<open>sequence_length = 1\<close> has \<^verbatim>\<open>len(long_sequence) >= sequence_length\<close>, and at \<open>i = 0\<close>
  the slice \<^verbatim>\<open>long_sequence[0:1]\<close> is \<^verbatim>\<open>[9007199254740993]\<close>, but row 0 of \<open>X\<close> holds
  9007199254740992. With a negative \<^verbatim>\<open>sequence_length\<close>, which the condition of the
  claim admits as well, \<^verbatim>\<open>np.zeros\<close> raises and there is no \<open>X\<close> at all.
\<close>

theorem make_subsequences_rounds_items:
  "int 1 \<le> int (length [9007199254740993 :: int]) \<and>
   make_subsequences [9007199254740993] 0 1 =
     Inr (\<lparr>nrows = 1, ncols = 1, rows = [[9007199254740992]]\<rparr>,
          \<lparr>nrows = 1, ncols = 1, rows = [[0]]\<rparr>) \<and>
   py_slice [9007199254740993 :: int] 0 (0 + 1) = [9007199254740993] \<and>
   - 1 \<le> int (length [1, 2, 3 :: int]) \<and>
   make_subsequences [1, 2, 3] 0 (- 1) = Inl ValueError"
proof -
  have e: "excess_bits 9007199254740993 = 1"
    by (simp add: excess_bits.simps)
  have r: "round_float64 9007199254740993 = 9007199254740992"
    by (simp add: round_float64_def Let_def e)
  have z: "round_float64 0 = 0"
    by (simp add: round_float64_small)
  have f: "fits_float64 9007199254740993" "fits_float64 0"
    by (simp_all add: fits_float64_def)
  have "make_subsequences [9007199254740993] 0 1 =
     Inr (\<lparr>nrows = 1, ncols = 1, rows = [[9007199254740992]]\<rparr>,
          \<lparr>nrows = 1, ncols = 1, rows = [[0]]\<rparr>)"
    using make_subsequences_result [of 1 "[9007199254740993]" 0] f
    by (simp add: r z)
  then show ?thesis
    by (simp add: py_slice_def clip_index_def make_subsequences_negative_length)
qed

text \<open>
  C3, amended: \<^verbatim>\<open>make_subsequences\<close> returns the stride-1 sliding windows of its input
  where \<^verbatim>\<open>float64\<close> holds them. For every \<open>sequence_length\<close> that is not negative, every
  sequence at least \<open>sequence_length\<close> long of which no item is beyond \<^verbatim>\<open>float64\<close>
  (when \<open>sequence_length\<close> is not 0), and every index \<open>i\<close> up to
  \<open>len(long_sequence) - sequence_length\<close> such that \<^verbatim>\<open>float64\<close> holds the items of
  \<^verbatim>\<open>long_sequence[i : i + sequence_length]\<close> and the label exactly, the call returns
  arrays \<open>X\<close> and \<open>y\<close> in which row \<open>i\<close> of \<open>X\<close> is that slice and row \<open>i\<close> of \<open>y\<close> holds
  the label. \<^verbatim>\<open>float64\<close> holds every integer of magnitude below \<open>2 ^ 53\<close> exactly, as
  \<open>exact_float64_small\<close> says, and so every token index of a tokenizer.
\<close>

theorem make_subsequences_sliding_windows:
  assumes "0 \<le> sequence_length"
    and "sequence_length \<le> int (length long_sequence)"
    and "int i \<le> int (length long_sequence) - sequence_length"
    and "sequence_length = 0 \<or> list_all fits_float64 long_sequence"
    and "list_all exact_float64 (py_slice long_sequence (int i) (int i + sequence_length))"
    and "exact_float64 label"
  shows "case make_subsequences long_sequence label sequence_length of
           Inl e \<Rightarrow> False
         | Inr (X, y) \<Rightarrow>
             i < nrows X \<and> i < length (rows X) \<and>
             rows X ! i = py_slice long_sequence (int i) (int i + sequence_length) \<and>
             i < nrows y \<and> i < length (rows y) \<and> rows y ! i = [label]"
proof -
  define n where "n = length long_sequence - nat sequence_length + 1"
  have i: "i < n"
    using assms(1-3) unfolding n_def by linarith
  have "int i + sequence_length \<le> int (length long_sequence)"
    using assms(3) by linarith
  with assms(1) have win: "py_slice long_sequence (int i) (int i + sequence_length) =
      take (nat sequence_length) (drop i long_sequence)"
    by (rule py_slice_window)
  have row: "map round_float64 (take (nat sequence_length) (drop i long_sequence)) =
      take (nat sequence_length) (drop i long_sequence)"
    using assms(5) unfolding win by (rule map_round_exact)
  have res: "make_subsequences long_sequence label sequence_length =
      Inr (\<lparr>nrows = n, ncols = nat sequence_length,
            rows = map (\<lambda>i. map round_float64 (take (nat sequence_length) (drop i long_sequence)))
                     [0..<n]\<rparr>,
           \<lparr>nrows = n, ncols = 1, rows = replicate n [round_float64 label]\<rparr>)"
    unfolding n_def
    using assms(1,2,4) exact_float64_fits [OF assms(6)] by (rule make_subsequences_result)
  show ?thesis
    unfolding res win using i row by (simp add: exact_float64_round [OF assms(6)])
qed

theorem make_subsequences_sliding_windows_witness:
  "(0::int) \<le> 2 \<and> 2 \<le> int (length [5, 6, 7, 8 :: int]) \<and>
   int 1 \<le> int (length [5, 6, 7, 8 :: int]) - 2 \<and>
   ((2::int) = 0 \<or> list_all fits_float64 [5, 6, 7, 8]) \<and>
   list_all exact_float64 (py_slice [5, 6, 7, 8] (int 1) (int 1 + 2)) \<and>
   exact_float64 (- 1) \<and>
   (case make_subsequences [5, 6, 7, 8] (- 1) 2 of
      Inl e \<Rightarrow> False
    | Inr (X, y) \<Rightarrow>
        1 < nrows X \<and> 1 < length (rows X) \<and> rows X ! 1 = [6, 7] \<and>
        1 < nrows y \<and> 1 < length (rows y) \<and> rows y ! 1 = [- 1])"
proof -
  have h: "(0::int) \<le> 2" "2 \<le> int (length [5, 6, 7, 8 :: int])"
    "int 1 \<le> int (length [5, 6, 7, 8 :: int]) - 2"
    "(2::int) = 0 \<or> list_all fits_float64 [5, 6, 7, 8]"
    "list_all exact_float64 (py_slice [5, 6, 7, 8] (int 1) (int 1 + 2))"
    "exact_float64 (- 1)"
    by (simp_all add: py_slice_def clip_index_def fits_float64_small exact_float64_small)
  have s: "py_slice [5, 6, 7, 8 :: int] (int 1) (int 1 + 2) = [6, 7]"
    by (simp add: py_slice_def clip_index_def)
  from h make_subsequences_sliding_windows [OF h] show ?thesis
    unfolding s by (intro conjI)
qed

section \<open>Array shapes\<close>

lemma chunk_concat_nth:
  "list_all (\<lambda>r. length r = w) rs \<Longrightarrow> k < length rs \<Longrightarrow>
   take w (drop (k * w) (concat rs)) = rs ! k"
proof (induction rs arbitrary: k)
  case Nil
  then show ?case by simp
next
  case (Cons r rs)
  show ?case
  proof (cases k)
    case 0
    with Cons.prems show ?thesis by simp
  next
    case (Suc j)
    with Cons.prems have "take w (drop (j * w) (concat rs)) = rs ! j"
      by (intro Cons.IH) simp_all
    with Suc Cons.prems show ?thesis by simp
  qed
qed

lemma chunks_concat:
  assumes "list_all (\<lambda>r. length r = w) rs"
  shows "map (\<lambda>k. take w (drop (k * w) (concat rs))) [0..<length rs] = rs"
  using assms by (intro nth_equalityI) (simp_all add: chunk_concat_nth)

lemma reshape_same_width:
  assumes "wf_array X" "0 < c" "ncols X = nat c"
  shows "reshape X c = Inr X"
proof -
  have "map (\<lambda>k. take (nat c) (drop (k * nat c) (concat (rows X)))) [0..<nrows X] = rows X"
    using assms chunks_concat [of "nat c" "rows X"] by (simp add: wf_array_def)
  then show ?thesis
    using assms by (simp add: reshape_def Let_def)
qed

lemma wf_take_rows:
  "wf_array X \<Longrightarrow> take_rows X idx = Inr Y \<Longrightarrow> wf_array Y \<and> ncols Y = ncols X \<and> nrows Y = length idx"
  by (auto simp: take_rows_def wf_array_def list_all_iff split: if_splits)

lemma make_subsequences_shape:
  assumes "30 \<le> length ls" "list_all fits_float64 ls" "fits_float64 label"
  shows "\<exists>X y. make_subsequences ls label SEQ_LEN = Inr (X, y) \<and>
     shape X = (length ls - 30 + 1, 30) \<and> shape y = (length ls - 30 + 1, 1) \<and>
     wf_array X \<and> wf_array y"
proof -
  have "\<And>i. i < Suc (length ls - 30) \<Longrightarrow> min (length ls - i) 30 = 30"
    using assms(1) by linarith
  then show ?thesis
    using assms make_subsequences_result [of 30 ls label]
    by (simp add: SEQ_LEN_def shape_def wf_array_def list_all_iff del: upt_Suc replicate_Suc)
qed

lemma np_vstack_shape:
  assumes "wf_array A" "wf_array B" "ncols A = ncols B"
  shows "\<exists>C. np_vstack A B = Inr C \<and> wf_array C \<and> shape C = (nrows A + nrows B, ncols A)"
  using assms by (simp add: np_vstack_def wf_array_def shape_def)

lemma train_test_split_shape:
  assumes "wf_array X" "wf_array y" "nrows X = nrows y" "2 \<le> nrows X"
    and "distinct perm" "set perm = {0..<nrows X}"
  shows "\<exists>Xt Xv yt yv. train_test_split perm X y = Inr (Xt, Xv, yt, yv) \<and>
     wf_array Xt \<and> wf_array Xv \<and> ncols Xt = ncols X \<and> ncols Xv = ncols X \<and>
     nrows Xt = nrows yt \<and> nrows Xv = nrows yv \<and> nrows Xt + nrows Xv = nrows X"
proof -
  define n_train where "n_train = 4 * nrows X div 5"
  define test where "test = take (nrows X - n_train) perm"
  define train where "train = take n_train (drop (nrows X - n_train) perm)"
  have len: "length perm = nrows X"
    using assms(5,6) distinct_card [of perm] by simp
  have pos: "n_train \<noteq> 0" "n_train \<le> nrows X"
    using assms(4) by (simp_all add: n_train_def)
  have lens: "length train = n_train" "length test = nrows X - n_train"
    using len pos by (simp_all add: train_def test_def)
  have "set train \<subseteq> set perm" "set test \<subseteq> set perm"
    unfolding train_def test_def
    by (meson set_take_subset set_drop_subset subset_trans)+
  then have ok: "list_all (\<lambda>i. i < nrows X) train" "list_all (\<lambda>i. i < nrows X) test"
    "list_all (\<lambda>i. i < nrows y) train" "list_all (\<lambda>i. i < nrows y) test"
    using assms(3,6) by (auto simp: list_all_iff)
  obtain Xt Xv yt yv where r: "take_rows X train = Inr Xt" "take_rows X test = Inr Xv"
      "take_rows y train = Inr yt" "take_rows y test = Inr yv"
    using ok by (simp add: take_rows_def)
  have "train_test_split perm X y =
      (if nrows y \<noteq> nrows X \<or> n_train = 0 then Inl ValueError
       else case take_rows X train of Inl e \<Rightarrow> Inl e | Inr X_train \<Rightarrow>
              (case take_rows X test of Inl e \<Rightarrow> Inl e | Inr X_val \<Rightarrow>
              (case take_rows y train of Inl e \<Rightarrow> Inl e | Inr y_train \<Rightarrow>
              (case take_rows y test of Inl e \<Rightarrow> Inl e | Inr y_val \<Rightarrow>
                 Inr (X_train, X_val, y_train, y_val)))))"
    unfolding train_test_split_def Let_def n_train_def test_def train_def ..
  then have split: "train_test_split perm X y = Inr (Xt, Xv, yt, yv)"
    using pos(1) assms(3) r by simp
  have sizes: "nrows Xt = n_train" "nrows yt = n_train"
    "nrows Xv = nrows X - n_train" "nrows yv = nrows X - n_train"
    using wf_take_rows [OF assms(1) r(1)] wf_take_rows [OF assms(1) r(2)]
      wf_take_rows [OF assms(2) r(3)] wf_take_rows [OF assms(2) r(4)] lens
    by simp_all
  show ?thesis
    using split sizes pos(2) wf_take_rows [OF assms(1) r(1)] wf_take_rows [OF assms(1) r(2)]
    by simp
qed

text \<open>
  C2, as stated, does not hold: the cells are \<^verbatim>\<open>float64\<close>, and a sequence of 30 items
  that are beyond its range, such as \<open>2 ^ 1024\<close>, has length \<open>L \<ge> 30\<close> but makes
  \<^verbatim>\<open>make_subsequences\<close> raise \<^verbatim>\<open>OverflowError\<close> and return no arrays.
\<close>

theorem make_subsequences_overflows:
  "30 \<le> length (replicate 30 (2 ^ 1024 :: int)) \<and>
   make_subsequences (replicate 30 (2 ^ 1024)) 0 SEQ_LEN = Inl OverflowError"
proof -
  have "\<not> list_all fits_float64 (replicate 30 (2 ^ 1024))"
    by (simp add: fits_float64_def list_all_iff)
  then have "make_subsequences (replicate 30 (2 ^ 1024)) 0 30 = Inl OverflowError"
    by (intro make_subsequences_overflow) simp_all
  then show ?thesis
    by (simp add: SEQ_LEN_def)
qed

text \<open>
  C2, amended: the arrays keep consistent shapes through the pipeline. For integer
  sequences of length \<open>L \<ge> 30\<close> and labels that are within the range of \<^verbatim>\<open>float64\<close>,
  \<^verbatim>\<open>make_subsequences\<close> returns \<open>X\<close> of shape \<open>(L - 30 + 1, 30)\<close> and \<open>y\<close> of shape
  \<open>(L - 30 + 1, 1)\<close>; stacking the two authors' arrays with \<^verbatim>\<open>vstack\<close> gives \<open>X\<close> and
  \<open>y\<close> with the same number of rows; and \<^verbatim>\<open>reshape(-1, SEQ_LEN)\<close> on the training and
  validation splits leaves their number of rows and their width of 30 as they were. The
  permutation \<open>perm\<close> is the shuffle that \<^verbatim>\<open>train_test_split\<close> draws.
\<close>

theorem array_shapes_consistent:
  assumes "30 \<le> length seqA" and "30 \<le> length seqB"
    and "list_all fits_float64 seqA" and "fits_float64 labelA"
    and "list_all fits_float64 seqB" and "fits_float64 labelB"
    and "distinct perm"
    and "set perm = {0..<(length seqA - 30 + 1) + (length seqB - 30 + 1)}"
  shows "\<exists>XA yA XB yB X y Xt Xv yt yv Xt' Xv'.
     make_subsequences seqA labelA SEQ_LEN = Inr (XA, yA) \<and>
     shape XA = (length seqA - 30 + 1, 30) \<and> shape yA = (length seqA - 30 + 1, 1) \<and>
     wf_array XA \<and> wf_array yA \<and>
     make_subsequences seqB labelB SEQ_LEN = Inr (XB, yB) \<and>
     shape XB = (length seqB - 30 + 1, 30) \<and> shape yB = (length seqB - 30 + 1, 1) \<and>
     wf_array XB \<and> wf_array yB \<and>
     np_vstack XA XB = Inr X \<and> np_vstack yA yB = Inr y \<and> nrows X = nrows y \<and>
     train_test_split perm X y = Inr (Xt, Xv, yt, yv) \<and>
     reshape Xt SEQ_LEN = Inr Xt' \<and> reshape Xv SEQ_LEN = Inr Xv' \<and>
     shape Xt' = shape Xt \<and> ncols Xt = 30 \<and> shape Xv' = shape Xv \<and> ncols Xv = 30 \<and>
     train_validation_sets perm XA yA XB yB = Inr (Xt', Xv', yt, yv)"
proof -
  obtain XA yA where A: "make_subsequences seqA labelA SEQ_LEN = Inr (XA, yA)"
      "shape XA = (length seqA - 30 + 1, 30)" "shape yA = (length seqA - 30 + 1, 1)"
      "wf_array XA" "wf_array yA"
    using make_subsequences_shape [OF assms(1,3,4)] by blast
  obtain XB yB where B: "make_subsequences seqB labelB SEQ_LEN = Inr (XB, yB)"
      "shape XB = (length seqB - 30 + 1, 30)" "shape yB = (length seqB - 30 + 1, 1)"
      "wf_array XB" "wf_array yB"
    using make_subsequences_shape [OF assms(2,5,6)] by blast
  have cols: "ncols XA = 30" "ncols XB = 30" "ncols yA = 1" "ncols yB = 1"
    and nr: "nrows XA = length seqA - 30 + 1" "nrows XB = length seqB - 30 + 1"
      "nrows yA = length seqA - 30 + 1" "nrows yB = length seqB - 30 + 1"
    using A B by (simp_all add: shape_def)
  obtain X where X: "np_vstack XA XB = Inr X" "wf_array X"
      "shape X = (nrows XA + nrows XB, ncols XA)"
    using np_vstack_shape [of XA XB] A B cols by auto
  obtain y where y: "np_vstack yA yB = Inr y" "wf_array y"
      "shape y = (nrows yA + nrows yB, ncols yA)"
    using np_vstack_shape [of yA yB] A B cols by auto
  have n: "nrows X = nrows y" "2 \<le> nrows X" "ncols X = 30"
    "nrows X = (length seqA - 30 + 1) + (length seqB - 30 + 1)"
    using X y nr cols by (simp_all add: shape_def)
  obtain Xt Xv yt yv where s: "train_test_split perm X y = Inr (Xt, Xv, yt, yv)"
      "wf_array Xt" "wf_array Xv" "ncols Xt = ncols X" "ncols Xv = ncols X"
    using train_test_split_shape [OF X(2) y(2) n(1,2) assms(7)] assms(8) n(4) by auto
  have r: "reshape Xt SEQ_LEN = Inr Xt" "reshape Xv SEQ_LEN = Inr Xv"
    using s n(3) by (simp_all add: reshape_same_width SEQ_LEN_def)
  have tv: "train_validation_sets perm XA yA XB yB = Inr (Xt, Xv, yt, yv)"
    by (simp add: train_validation_sets_def X(1) y(1) s(1) r)
  have c30: "ncols Xt = 30" "ncols Xv = 30"
    using s(4,5) n(3) by simp_all
  from A B X(1) y(1) n(1) s(1) r c30 tv show ?thesis
    by blast
qed

theorem array_shapes_consistent_witness:
  "30 \<le> length (replicate 30 (7::int)) \<and> 30 \<le> length (replicate 31 (9::int)) \<and>
   list_all fits_float64 (replicate 30 7) \<and> fits_float64 0 \<and>
   list_all fits_float64 (replicate 31 9) \<and> fits_float64 1 \<and>
   distinct [2, 0, 1 :: nat] \<and>
   set [2, 0, 1 :: nat] =
     {0..<(length (replicate 30 (7::int)) - 30 + 1) + (length (replicate 31 (9::int)) - 30 + 1)} \<and>
   (\<exists>XA yA XB yB X y Xt Xv yt yv Xt' Xv'.
     make_subsequences (replicate 30 7) 0 SEQ_LEN = Inr (XA, yA) \<and>
     shape XA = (length (replicate 30 (7::int)) - 30 + 1, 30) \<and>
     shape yA = (length (replicate 30 (7::int)) - 30 + 1, 1) \<and>
     wf_array XA \<and> wf_array yA \<and>
     make_subsequences (replicate 31 9) 1 SEQ_LEN = Inr (XB, yB) \<and>
     shape XB = (length (replicate 31 (9::int)) - 30 + 1, 30) \<and>
     shape yB = (length (replicate 31 (9::int)) - 30 + 1, 1) \<and>
     wf_array XB \<and> wf_array yB \<and>
     np_vstack XA XB = Inr X \<and> np_vstack yA yB = Inr y \<and> nrows X = nrows y \<and>
     train_test_split [2, 0, 1] X y = Inr (Xt, Xv, yt, yv) \<and>
     reshape Xt SEQ_LEN = Inr Xt' \<and> reshape Xv SEQ_LEN = Inr Xv' \<and>
     shape Xt' = shape Xt \<and> ncols Xt = 30 \<and> shape Xv' = shape Xv \<and> ncols Xv = 30 \<and>
     train_validation_sets [2, 0, 1] XA yA XB yB = Inr (Xt', Xv', yt, yv))"
proof -
  have h: "30 \<le> length (replicate 30 (7::int))" "30 \<le> length (replicate 31 (9::int))"
    "list_all fits_float64 (replicate 30 7)" "fits_float64 0"
    "list_all fits_float64 (replicate 31 9)" "fits_float64 1"
    "distinct [2, 0, 1 :: nat]"
    "set [2, 0, 1 :: nat] =
      {0..<(length (replicate 30 (7::int)) - 30 + 1) + (length (replicate 31 (9::int)) - 30 + 1)}"
    by (auto simp: fits_float64_small list_all_iff)
  from h array_shapes_consistent [OF h] show ?thesis
    by (intro conjI)
qed

section \<open>Properties of preprocess_text\<close>

lemma lit_blank: "lit '' '' = [32]"
  by (simp add: lit_def)

lemma isspace_newline: "isspace newline"
  by (simp add: isspace_def newline_def)

lemma isspace_blank: "isspace 32"
  by (simp add: isspace_def)

lemma blank_not_newline: "32 \<noteq> newline"
  by (simp add: newline_def)

lemma lower_full_blank: "lower_full u 32 = [32]"
  by (simp add: lower_full_def latin1_isupper_def)

lemma concat_singletons: "concat (map (\<lambda>x. [f x]) xs) = map f xs"
  by (induction xs) simp_all

lemma str_lower_no_sigma:
  assumes "931 \<notin> set s"
  shows "str_lower u s = concat (map (lower_full u) s)"
proof -
  have "map (\<lambda>i. if s ! i = 931 then [if final_sigma u s i then 962 else 963]
                  else lower_full u (s ! i)) [0..<length s] =
        map (\<lambda>i. lower_full u (s ! i)) [0..<length s]"
    using assms by (intro map_cong refl) (auto simp: in_set_conv_nth)
  also have "\<dots> = map (lower_full u) (map (\<lambda>i. s ! i) [0..<length s])"
    by simp
  also have "\<dots> = map (lower_full u) s"
    by (simp only: map_nth)
  finally show ?thesis
    by (simp add: str_lower_def)
qed

lemma str_lower_fixed:
  assumes "\<And>d. d \<in> set t \<Longrightarrow> d \<noteq> 931 \<and> lower_full u d = [d]"
  shows "str_lower u t = t"
proof -
  have "931 \<notin> set t"
    using assms by blast
  then have "str_lower u t = concat (map (lower_full u) t)"
    by (rule str_lower_no_sigma)
  also have "map (lower_full u) t = map (\<lambda>d. [d]) t"
    using assms by (intro map_cong refl) simp
  also have "concat (map (\<lambda>d. [d]) t) = t"
    by (simp add: concat_singletons)
  finally show ?thesis .
qed

lemma set_str_lower:
  assumes "d \<in> set (str_lower u s)"
  shows "d = 962 \<or> d = 963 \<or> (\<exists>c. c \<noteq> 931 \<and> d \<in> set (lower_full u c))"
proof -
  from assms obtain i where "i < length s"
    and "d \<in> set (if s ! i = 931 then [if final_sigma u s i then 962 else 963]
                  else lower_full u (s ! i))"
    by (auto simp: str_lower_def)
  then show ?thesis
    by (cases "s ! i = 931") (auto split: if_splits)
qed

lemma lower_full_stable:
  assumes "lower_stable u" "c \<noteq> 931" "d \<in> set (lower_full u c)"
  shows "d \<noteq> 931 \<and> lower_full u d = [d]"
proof (cases "c < 256")
  case True
  with assms(3) have d: "d = (if latin1_isupper c then c + 32 else c)"
    by (simp add: lower_full_def)
  with True have "d < 256" "\<not> latin1_isupper d"
    by (auto simp: latin1_isupper_def)
  then show ?thesis
    by (simp add: lower_full_def)
next
  case False
  then have c: "256 \<le> c"
    by simp
  from assms(3) False have d: "d \<in> set (wide_lower u c)"
    by (simp add: lower_full_def)
  from assms(1) have "\<And>c d. 256 \<le> c \<Longrightarrow> c \<noteq> 931 \<Longrightarrow> d \<in> set (wide_lower u c) \<Longrightarrow>
      d \<noteq> 931 \<and> lower_full u d = [d]"
    unfolding lower_stable_def by blast
  from this [OF c assms(2) d] show ?thesis .
qed

lemma str_lower_stable:
  assumes "lower_stable u" "d \<in> set (str_lower u s)"
  shows "d \<noteq> 931 \<and> lower_full u d = [d]"
proof -
  from set_str_lower [OF assms(2)]
  consider "d = 962" | "d = 963" | c where "c \<noteq> 931" "d \<in> set (lower_full u c)"
    by blast
  then show ?thesis
  proof cases
    case 1
    with assms(1) show ?thesis by (simp add: lower_stable_def)
  next
    case 2
    with assms(1) show ?thesis by (simp add: lower_stable_def)
  next
    case 3
    with assms(1) show ?thesis by (intro lower_full_stable)
  qed
qed

lemma set_str_replace: "set (str_replace old new s) \<subseteq> set new \<union> set s"
proof (induction old new s rule: str_replace.induct)
  case (1 old new)
  then show ?case by auto
next
  case (2 old new c cs)
  have "set (drop (length old) (c # cs)) \<subseteq> set (c # cs)"
    by (rule set_drop_subset)
  with 2 show ?case
    by (auto split: if_splits)
qed

lemma set_str_replace_delete: "set (str_replace old [] s) \<subseteq> set s"
  using set_str_replace [of old "[]" s] by simp

lemma split_from_words:
  assumes "\<forall>c\<in>set word. \<not> isspace c" and "w \<in> set (split_from word s)"
  shows "w \<noteq> [] \<and> (\<forall>c\<in>set w. \<not> isspace c) \<and> set w \<subseteq> set word \<union> set s"
  using assms
proof (induction s arbitrary: word)
  case Nil
  then show ?case by (simp split: if_splits)
next
  case (Cons c cs)
  show ?case
  proof (cases "isspace c")
    case False
    with Cons.prems have "w \<in> set (split_from (word @ [c]) cs)"
      and "\<forall>d\<in>set (word @ [c]). \<not> isspace d"
      by simp_all
    from Cons.IH [OF this(2,1)] show ?thesis
      by auto
  next
    case True
    with Cons.prems(2) consider "w = word" "word \<noteq> []" | "w \<in> set (split_from [] cs)"
      by (cases "word = []") auto
    then show ?thesis
    proof cases
      case 1
      with Cons.prems(1) show ?thesis by auto
    next
      case 2
      from Cons.IH [OF _ this] show ?thesis
        by auto
    qed
  qed
qed

lemma str_split_words:
  "w \<in> set (str_split s) \<Longrightarrow> w \<noteq> [] \<and> (\<forall>c\<in>set w. \<not> isspace c) \<and> set w \<subseteq> set s"
  using split_from_words [of "[]" w s] by (simp add: str_split_def)

lemma set_str_join: "set (str_join sep ws) \<subseteq> set sep \<union> \<Union> (set ` set ws)"
  by (induction sep ws rule: str_join.induct) auto

lemma adjacent_spaces_Cons:
  "adjacent_spaces (a # s) = (s \<noteq> [] \<and> ((isspace a \<and> isspace (hd s)) \<or> adjacent_spaces s))"
  by (cases s) auto

lemma adjacent_spaces_append_word:
  assumes "w \<noteq> []" "\<forall>c\<in>set w. \<not> isspace c"
  shows "adjacent_spaces (w @ s) = adjacent_spaces (last w # s)"
  using assms
proof (induction w)
  case Nil
  then show ?case by simp
next
  case (Cons a w)
  show ?case
  proof (cases "w = []")
    case True
    then show ?thesis by simp
  next
    case False
    with Cons have "adjacent_spaces (w @ s) = adjacent_spaces (last w # s)"
      by simp
    with False Cons.prems show ?thesis
      by (simp add: adjacent_spaces_Cons [of a])
  qed
qed

lemma str_join_words_head:
  assumes "\<forall>w\<in>set ws. w \<noteq> [] \<and> (\<forall>c\<in>set w. \<not> isspace c)" "ws \<noteq> []"
  shows "str_join sep ws \<noteq> [] \<and> \<not> isspace (hd (str_join sep ws))"
  using assms by (induction sep ws rule: str_join.induct) auto

lemma str_join_words_no_adjacent:
  assumes "\<forall>w\<in>set ws. w \<noteq> [] \<and> (\<forall>c\<in>set w. \<not> isspace c)"
  shows "\<not> adjacent_spaces (str_join [32] ws)"
  using assms
proof (induction "[32::nat]" ws rule: str_join.induct)
  case 1
  then show ?case by simp
next
  case (2 x)
  then have "adjacent_spaces (x @ []) = adjacent_spaces (last x # [])"
    by (intro adjacent_spaces_append_word) auto
  then show ?case by simp
next
  case (3 x y ys)
  let ?r = "str_join [32] (y # ys)"
  have r: "?r \<noteq> [] \<and> \<not> isspace (hd ?r)" "\<not> adjacent_spaces ?r"
    using 3 str_join_words_head [of "y # ys" "[32]"] by auto
  have x: "x \<noteq> []" "\<forall>c\<in>set x. \<not> isspace c"
    using 3 by auto
  then have "\<not> isspace (last x)"
    by simp
  moreover have "adjacent_spaces (x @ [32] @ ?r) = adjacent_spaces (last x # [32] @ ?r)"
    using x by (rule adjacent_spaces_append_word)
  ultimately show ?case
    using r by (simp add: adjacent_spaces_Cons)
qed

lemma readlines_from_no_newline:
  "newline \<notin> set s \<Longrightarrow> readlines_from line s = (if line @ s = [] then [] else [line @ s])"
  by (induction s arbitrary: line) auto

lemma readlines_from_first:
  "newline \<in> set s \<Longrightarrow> readlines_from line s =
     (line @ takeWhile (\<lambda>c. c \<noteq> newline) s @ [newline]) # readlines_from [] (after_first_line s)"
proof (induction s arbitrary: line)
  case Nil
  then show ?case by simp
next
  case (Cons c cs)
  show ?case
  proof (cases "c = newline")
    case True
    then show ?thesis by (simp add: after_first_line_def)
  next
    case False
    with Cons.prems have "newline \<in> set cs" by simp
    from Cons.IH [OF this, of "line @ [c]"] False show ?thesis
      by (simp add: after_first_line_def)
  qed
qed

lemma drop_readlines: "drop 1 (readlines content) = readlines (after_first_line content)"
proof (cases "newline \<in> set content")
  case True
  then show ?thesis
    by (simp add: readlines_def readlines_from_first)
next
  case False
  then have "dropWhile (\<lambda>c. c \<noteq> newline) content = []"
    by (induction content) auto
  then have "after_first_line content = []"
    by (simp only: after_first_line_def drop_Nil)
  then show ?thesis
    using False by (simp add: readlines_def readlines_from_no_newline)
qed

lemma preprocess_lines_chars:
  assumes "c \<in> set (preprocess_lines u lines)"
  shows "(c = 32 \<or> \<not> isspace c) \<and>
         (c = 32 \<or> c \<in> set (str_lower u (str_replace (lit ''  '') (lit '' '')
                       (str_replace [newline] (lit '' '') (str_join (lit '' '') (drop 1 lines))))))"
proof -
  define v where "v = str_lower u (str_replace (lit ''  '') (lit '' '')
                        (str_replace [newline] (lit '' '') (str_join (lit '' '') (drop 1 lines))))"
  define t where "t = str_replace (lit ''madison'') [] (str_replace (lit ''hamilton'') [] v)"
  have tv: "set t \<subseteq> set v"
    unfolding t_def by (rule subset_trans [OF set_str_replace_delete set_str_replace_delete])
  have "preprocess_lines u lines = str_join [32] (str_split t)"
    by (simp add: preprocess_lines_def t_def v_def lit_blank)
  with assms have "c \<in> set (str_join [32] (str_split t))"
    by simp
  with set_str_join [of "[32]" "str_split t"]
  consider "c = 32" | w where "w \<in> set (str_split t)" "c \<in> set w"
    by auto
  then show ?thesis
  proof cases
    case 1
    then show ?thesis by simp
  next
    case 2
    from str_split_words [OF 2(1)] 2(2) have "\<not> isspace c" "c \<in> set t"
      by auto
    with tv show ?thesis
      unfolding v_def by auto
  qed
qed

lemma preprocess_lines_stable:
  assumes "lower_stable u" "d \<in> set (preprocess_lines u lines)"
  shows "d \<noteq> 931 \<and> lower_full u d = [d]"
proof -
  from preprocess_lines_chars [OF assms(2)]
  consider "d = 32"
    | "d \<in> set (str_lower u (str_replace (lit ''  '') (lit '' '')
               (str_replace [newline] (lit '' '') (str_join (lit '' '') (drop 1 lines)))))"
    by blast
  then show ?thesis
  proof cases
    case 1
    then show ?thesis by (simp add: lower_full_blank)
  next
    case 2
    with assms(1) show ?thesis by (rule str_lower_stable)
  qed
qed

lemma preprocess_lines_lower:
  assumes "lower_stable u"
  shows "str_lower u (preprocess_lines u lines) = preprocess_lines u lines"
  by (rule str_lower_fixed) (rule preprocess_lines_stable [OF assms])

lemma preprocess_lines_no_capital:
  assumes "lower_stable u"
  shows "\<not> list_ex latin1_isupper (preprocess_lines u lines)"
proof
  assume "list_ex latin1_isupper (preprocess_lines u lines)"
  then obtain d where d: "d \<in> set (preprocess_lines u lines)" "latin1_isupper d"
    by (auto simp: list_ex_iff)
  from d(2) have "lower_full u d = [d + 32]"
    by (auto simp: lower_full_def latin1_isupper_def)
  with preprocess_lines_stable [OF assms d(1)] show False
    by simp
qed

lemma preprocess_lines_no_newline: "newline \<notin> set (preprocess_lines u lines)"
proof
  assume "newline \<in> set (preprocess_lines u lines)"
  from preprocess_lines_chars [OF this] have "newline = 32 \<or> \<not> isspace newline"
    by simp
  with isspace_newline blank_not_newline show False
    by simp
qed

lemma preprocess_lines_no_adjacent: "\<not> adjacent_spaces (preprocess_lines u lines)"
proof -
  have "\<not> adjacent_spaces (str_join [32] (str_split t))" for t
  proof (rule str_join_words_no_adjacent, rule ballI)
    fix w assume "w \<in> set (str_split t)"
    from str_split_words [OF this] show "w \<noteq> [] \<and> (\<forall>c\<in>set w. \<not> isspace c)"
      by simp
  qed
  then show ?thesis
    by (simp add: preprocess_lines_def lit_blank)
qed

lemma preprocess_text_result:
  "preprocess_text u file_path w =
     (case files w file_path of Inl e \<Rightarrow> Inl e
      | Inr content \<Rightarrow> Inr (preprocess_lines u (readlines content)),
      w\<lparr>trace := trace w @ [ReadFile file_path]\<rparr>)"
  by (simp add: preprocess_text_def bind_io_def open_readlines_def return_io_def
      split: sum.splits)

lemma preprocess_lines_first_line:
  "preprocess_lines u (readlines content) =
   preprocess_lines u ([] # readlines (after_first_line content))"
  using drop_readlines [of content] by (simp add: preprocess_lines_def)

lemma lower_stable_example: "lower_stable example_unicode"
  by (simp add: lower_stable_def example_unicode_def lower_full_def)

lemmas eval_strings =
  preprocess_lines_def str_lower_no_sigma lower_full_def latin1_isupper_def str_split_def
  isspace_def readlines_def newline_def lit_def

text \<open>
  C5, as stated, does not hold: \<^verbatim>\<open>str.lower\<close> leaves an upper-case character that has
  no lower-case form. From a file with the text \<^verbatim>\<open>No. 1\<close>, a newline and the character
  \<open>0x3D2\<close>, the Greek upsilon with hook symbol, \<^verbatim>\<open>preprocess_text\<close> returns that
  character, of which \<^verbatim>\<open>str.isupper\<close> holds: the string is not lower-case.
\<close>

theorem preprocess_text_keeps_capital:
  "fst (preprocess_text example_unicode (lit ''./papers/A/paper_1.txt'')
          (single_file_world (lit ''No. 1\<newline>'' @ [978]))) = Inr [978] \<and>
   list_ex (isupper example_unicode) [978]"
  by (simp add: preprocess_text_result single_file_world_def eval_strings
      example_unicode_def isupper_def)

text \<open>
  C5, amended: for every file that can be read, the string that \<^verbatim>\<open>preprocess_text\<close>
  returns is unchanged by \<^verbatim>\<open>str.lower\<close>, so that every character of it that has a
  lower-case form is in that form and no capital letter of ASCII or Latin-1 is in it,
  has no newline and no two adjacent whitespace characters, and has nothing of the first
  line of the file: it is computed from the text behind the first line alone. The
  hypothesis \<open>lower_stable\<close> is the property of the Unicode database that \<^verbatim>\<open>str.lower\<close>
  puts out no character that it would change.
\<close>

theorem preprocess_text_clean:
  assumes "files w file_path = Inr content" and "lower_stable u"
  shows "\<exists>t. fst (preprocess_text u file_path w) = Inr t \<and>
           str_lower u t = t \<and> \<not> list_ex latin1_isupper t \<and>
           newline \<notin> set t \<and> \<not> adjacent_spaces t \<and>
           t = preprocess_lines u ([] # readlines (after_first_line content))"
proof -
  let ?t = "preprocess_lines u (readlines content)"
  have res: "fst (preprocess_text u file_path w) = Inr ?t"
    using assms(1) by (simp add: preprocess_text_result)
  show ?thesis
    using res preprocess_lines_lower [OF assms(2), of "readlines content"]
      preprocess_lines_no_capital [OF assms(2), of "readlines content"]
      preprocess_lines_no_newline [of u "readlines content"]
      preprocess_lines_no_adjacent [of u "readlines content"]
      preprocess_lines_first_line [of u content]
    by simp
qed

theorem preprocess_text_clean_witness:
  "files (single_file_world (lit ''No. 1\<newline>To  the People:\<newline>\<newline>by HAMILTON''))
      (lit ''./papers/A/paper_1.txt'')
     = Inr (lit ''No. 1\<newline>To  the People:\<newline>\<newline>by HAMILTON'') \<and>
   lower_stable example_unicode \<and>
   (\<exists>t. fst (preprocess_text example_unicode (lit ''./papers/A/paper_1.txt'')
               (single_file_world (lit ''No. 1\<newline>To  the People:\<newline>\<newline>by HAMILTON''))) = Inr t \<and>
        str_lower example_unicode t = t \<and> \<not> list_ex latin1_isupper t \<and>
        newline \<notin> set t \<and> \<not> adjacent_spaces t \<and>
        t = preprocess_lines example_unicode
              ([] # readlines (after_first_line (lit ''No. 1\<newline>To  the People:\<newline>\<newline>by HAMILTON''))))"
proof -
  let ?w = "single_file_world (lit ''No. 1\<newline>To  the People:\<newline>\<newline>by HAMILTON'')"
  have h: "files ?w (lit ''./papers/A/paper_1.txt'')
      = Inr (lit ''No. 1\<newline>To  the People:\<newline>\<newline>by HAMILTON'')"
    "lower_stable example_unicode"
    by (simp_all add: single_file_world_def lower_stable_example)
  from h preprocess_text_clean [OF h] show ?thesis
    by (intro conjI)
qed

lemma preprocess_text_example:
  "fst (preprocess_text u (lit ''./papers/A/paper_1.txt'')
          (single_file_world (lit ''No. 1\<newline>To  the People:\<newline>\<newline>by HAMILTON'')))
   = Inr (lit ''to the people: by'')"
  by (simp add: preprocess_text_result single_file_world_def eval_strings)

text \<open>
  C6 does not hold of the code: \<^verbatim>\<open>str.replace\<close> is one pass from the left and does not
  scan again the text that a removal joins. From a file whose second line is
  \<^verbatim>\<open>hamHAMILTONilton\<close>, \<^verbatim>\<open>preprocess_text\<close> takes the inner \<^verbatim>\<open>hamilton\<close> out of the
  lower-cased text and returns \<^verbatim>\<open>hamilton\<close>, whatever the Unicode database.
\<close>

theorem preprocess_text_spliced_name:
  "\<forall>u. fst (preprocess_text u (lit ''./papers/A/paper_1.txt'')
          (single_file_world (lit ''No. 1\<newline>hamHAMILTONilton''))) = Inr (lit ''hamilton'') \<and>
        sublist (lit ''hamilton'') (lit ''hamilton'')"
  by (simp add: preprocess_text_result single_file_world_def eval_strings)

section \<open>Voting\<close>

lemma make_subsequences_empty:
  assumes "sl = int (length ls) + 1"
  shows "make_subsequences ls label sl =
     Inr (\<lparr>nrows = 0, ncols = nat sl, rows = []\<rparr>, \<lparr>nrows = 0, ncols = 1, rows = []\<rparr>)"
  using assms by (simp add: make_subsequences_def np_zeros_def)

lemma make_subsequences_short:
  assumes "int (length ls) + 1 < sl"
  shows "make_subsequences ls label sl = Inl ValueError"
  using assms by (simp add: make_subsequences_def np_zeros_def)

lemma make_subsequences_wf:
  assumes "make_subsequences ls label SEQ_LEN = Inr (X, y)"
  shows "wf_array X \<and> ncols X = 30 \<and> nrows X = length ls + 1 - 30"
proof -
  consider "30 \<le> length ls" | "length ls = 29" | "length ls < 29"
    by linarith
  then show ?thesis
  proof cases
    case 1
    show ?thesis
    proof (cases "list_all fits_float64 ls \<and> fits_float64 label")
      case True
      with 1 obtain X' y' where "make_subsequences ls label SEQ_LEN = Inr (X', y')"
        "shape X' = (length ls - 30 + 1, 30)" "wf_array X'"
        using make_subsequences_shape [of ls label] by blast
      with assms 1 show ?thesis
        by (simp add: shape_def)
    next
      case False
      with 1 have "make_subsequences ls label 30 = Inl OverflowError"
        by (intro make_subsequences_overflow) auto
      with assms show ?thesis
        by (simp add: SEQ_LEN_def)
    qed
  next
    case 2
    then show ?thesis
      using assms make_subsequences_empty [of 30 ls label]
      by (auto simp: SEQ_LEN_def wf_array_def)
  next
    case 3
    then show ?thesis
      using assms make_subsequences_short [of ls 30 label] by (simp add: SEQ_LEN_def)
  qed
qed

lemma bind_io_Inr: "m w = (Inr x, w') \<Longrightarrow> bind_io m f w = f x w'"
  by (simp add: bind_io_def)

lemma bind_io_Inl: "m w = (Inl e, w') \<Longrightarrow> bind_io m f w = (Inl e, w')"
  by (simp add: bind_io_def)

lemma tokenizer_sequences_result:
  "tokenizer_sequences lib tokenizer s w =
     (Inr (texts_to_sequences lib tokenizer s), w\<lparr>trace := trace w @ [TextsToSequences]\<rparr>)"
  by (simp add: tokenizer_sequences_def bind_io_def emit_def return_io_def)

lemma predict_result:
  "predict lib model X w = (model_predict lib model X, w\<lparr>trace := trace w @ [ModelPredict]\<rparr>)"
  by (simp add: predict_def bind_io_def emit_def lift_io_def)

lemma print_result: "print line w = (Inr (), w\<lparr>trace := trace w @ [Print line]\<rparr>)"
  by (simp add: print_def emit_def)

lemma printed_append: "printed (es @ fs) = printed es @ printed fs"
  by (induction es rule: printed.induct) simp_all

lemma np_sum_map: "np_sum (map f xs) = length (filter f xs)"
  by (simp add: np_sum_def filter_map o_def)

lemma count_votes_filter:
  "count_votes ps = (length (filter (\<lambda>p. \<not> above_half p) ps), length (filter above_half ps))"
  by (simp add: count_votes_def Let_def np_sum_map o_def)

text \<open>
  C4: every subsequence of an unknown document casts exactly one vote. A prediction
  \<open>p\<close> votes for author A when \<^verbatim>\<open>p > 0.5\<close> is false and for author B when it is true, so
  that, \<^verbatim>\<open>model.predict\<close> returning one prediction for each row it is given, the two
  counts add up to the number of subsequences fed to it.
\<close>

theorem every_subsequence_votes_once:
  assumes "model_predict lib model X_sequences = Inr predictions"
    and "length predictions = nrows X_sequences"
  shows "fst (predict lib model X_sequences w) = Inr predictions \<and>
     (case count_votes predictions of
        (votes_for_authorA, votes_for_authorB) \<Rightarrow>
          votes_for_authorA = length (filter (\<lambda>p. \<not> above_half p) predictions) \<and>
          votes_for_authorB = length (filter above_half predictions) \<and>
          votes_for_authorA + votes_for_authorB = nrows X_sequences)"
proof -
  have "length (filter (\<lambda>p. \<not> above_half p) predictions) + length (filter above_half predictions)
      = length predictions"
    using sum_length_filter_compl [of above_half predictions] by simp
  with assms show ?thesis
    by (simp add: predict_result count_votes_filter)
qed

theorem every_subsequence_votes_once_witness:
  "model_predict example_library () \<lparr>nrows = 3, ncols = 2, rows = [[116, 5], [32, 5], [4, 5]]\<rparr>
     = Inr [Score (3 / 4), NaN, Score (1 / 4)] \<and>
   length [Score (3 / 4), NaN, Score (1 / 4)] =
     nrows \<lparr>nrows = 3, ncols = 2, rows = [[116, 5], [32, 5], [4 :: int, 5]]\<rparr> \<and>
   fst (predict example_library () \<lparr>nrows = 3, ncols = 2, rows = [[116, 5], [32, 5], [4, 5]]\<rparr>
          (single_file_world [])) = Inr [Score (3 / 4), NaN, Score (1 / 4)] \<and>
   (case count_votes [Score (3 / 4), NaN, Score (1 / 4)] of
      (votes_for_authorA, votes_for_authorB) \<Rightarrow>
        votes_for_authorA = 2 \<and> votes_for_authorB = 1 \<and>
        votes_for_authorA + votes_for_authorB =
          nrows \<lparr>nrows = 3, ncols = 2, rows = [[116, 5], [32, 5], [4 :: int, 5]]\<rparr>)"
proof -
  let ?X = "\<lparr>nrows = 3, ncols = 2, rows = [[116, 5], [32, 5], [4 :: int, 5]]\<rparr>"
  have h: "model_predict example_library () ?X = Inr [Score (3 / 4), NaN, Score (1 / 4)]"
    "length [Score (3 / 4), NaN, Score (1 / 4)] = nrows ?X"
    by (simp_all add: example_library_def)
  from h every_subsequence_votes_once [OF h, of "single_file_world []"]
  show ?thesis
    by (simp add: count_votes_filter)
qed

lemma reshape_subsequences:
  assumes "make_subsequences ls label SEQ_LEN = Inr (X, y)"
  shows "reshape X SEQ_LEN = Inr X"
  using make_subsequences_wf [OF assms] by (simp add: reshape_same_width SEQ_LEN_def)

lemma attribute_paper_result:
  assumes "files w (lit ''./papers/Unknown/'' @ x) = Inr content"
    and "make_subsequences
           (texts_to_sequences lib tokenizer (preprocess_lines (unicode lib) (readlines content)))
           UNKNOWN SEQ_LEN = Inr (X_sequences, y)"
    and "model_predict lib model X_sequences = Inr predictions"
  shows "attribute_paper lib tokenizer model x w =
     (Inr (), w\<lparr>trace := trace w @
        [ReadFile (lit ''./papers/Unknown/'' @ x), TextsToSequences,
         MakeSubsequences (texts_to_sequences lib tokenizer
            (preprocess_lines (unicode lib) (readlines content))) UNKNOWN,
         ModelPredict,
         Print (attribution_line x (length (filter (\<lambda>p. \<not> above_half p) predictions))
                  (length (filter above_half predictions)))]\<rparr>)"
  using assms reshape_subsequences [OF assms(2)]
  by (simp add: attribute_paper_def bind_io_def preprocess_text_result
      tokenizer_sequences_result subsequences_def emit_def lift_io_def predict_result
      count_votes_filter print_result)

lemma unknown_votes_trace [simp]:
  "unknown_votes lib tokenizer model (w\<lparr>trace := es\<rparr>) x = unknown_votes lib tokenizer model w x"
  by (simp add: unknown_votes_def)

lemma attribute_paper_votes:
  assumes "unknown_votes lib tokenizer model w x = Some (a, b)"
  shows "\<exists>es. attribute_paper lib tokenizer model x w = (Inr (), w\<lparr>trace := trace w @ es\<rparr>) \<and>
              printed es = [attribution_line x a b]"
proof -
  from assms obtain content where c: "files w (lit ''./papers/Unknown/'' @ x) = Inr content"
    and v: "paper_votes lib tokenizer model content = Some (a, b)"
    by (auto simp: unknown_votes_def split: sum.splits)
  from v obtain X y where s: "make_subsequences
      (texts_to_sequences lib tokenizer (preprocess_lines (unicode lib) (readlines content)))
      UNKNOWN SEQ_LEN = Inr (X, y)"
    by (auto simp: paper_votes_def split: sum.splits)
  with v obtain predictions where p: "model_predict lib model X = Inr predictions"
    and ab: "a = length (filter (\<lambda>p. \<not> above_half p) predictions)"
      "b = length (filter above_half predictions)"
    by (auto simp: paper_votes_def split: sum.splits)
  show ?thesis
    unfolding ab
  proof (intro exI conjI)
    show "attribute_paper lib tokenizer model x w =
      (Inr (), w\<lparr>trace := trace w @
        [ReadFile (lit ''./papers/Unknown/'' @ x), TextsToSequences,
         MakeSubsequences (texts_to_sequences lib tokenizer
            (preprocess_lines (unicode lib) (readlines content))) UNKNOWN,
         ModelPredict,
         Print (attribution_line x (length (filter (\<lambda>p. \<not> above_half p) predictions))
                  (length (filter above_half predictions)))]\<rparr>)"
      by (rule attribute_paper_result [OF c s p])
  qed simp
qed

lemma for_each_votes:
  assumes "\<forall>x\<in>set names. unknown_votes lib tokenizer model w x \<noteq> None"
  shows "\<exists>es. for_each names (\<lambda>x u. attribute_paper lib tokenizer model x) () w =
                 (Inr (), w\<lparr>trace := trace w @ es\<rparr>) \<and>
              printed es =
                map (\<lambda>x. case unknown_votes lib tokenizer model w x of
                           None \<Rightarrow> [] | Some (a, b) \<Rightarrow> attribution_line x a b) names"
  using assms
proof (induction names arbitrary: w)
  case Nil
  show ?case
    by (intro exI [of _ "[]"]) (simp add: return_io_def)
next
  case (Cons x xs)
  from Cons.prems obtain a b where ab: "unknown_votes lib tokenizer model w x = Some (a, b)"
    by auto
  from attribute_paper_votes [OF this] obtain es1
    where 1: "attribute_paper lib tokenizer model x w = (Inr (), w\<lparr>trace := trace w @ es1\<rparr>)"
      and p1: "printed es1 = [attribution_line x a b]"
    by blast
  let ?w1 = "w\<lparr>trace := trace w @ es1\<rparr>"
  have "\<forall>x\<in>set xs. unknown_votes lib tokenizer model ?w1 x \<noteq> None"
    using Cons.prems by simp
  from Cons.IH [OF this] obtain es2
    where 2: "for_each xs (\<lambda>x u. attribute_paper lib tokenizer model x) () ?w1 =
        (Inr (), ?w1\<lparr>trace := trace ?w1 @ es2\<rparr>)"
      and p2: "printed es2 =
        map (\<lambda>x. case unknown_votes lib tokenizer model w x of
                   None \<Rightarrow> [] | Some (a, b) \<Rightarrow> attribution_line x a b) xs"
    by auto
  have "for_each (x # xs) (\<lambda>x u. attribute_paper lib tokenizer model x) () w =
      (Inr (), w\<lparr>trace := trace w @ (es1 @ es2)\<rparr>)"
    by (simp add: bind_io_def 1 2)
  moreover have "printed (es1 @ es2) =
      map (\<lambda>x. case unknown_votes lib tokenizer model w x of
                 None \<Rightarrow> [] | Some (a, b) \<Rightarrow> attribution_line x a b) (x # xs)"
    by (simp add: printed_append p1 p2 ab)
  ultimately show ?case
    by blast
qed

lemma attribute_papers_votes:
  assumes "dirs w (lit ''./papers/Unknown/'') = Inr names"
    and "\<forall>x\<in>set names. unknown_votes lib tokenizer model w x \<noteq> None"
  shows "fst (attribute_papers lib tokenizer model w) = Inr () \<and>
     printed (trace (snd (attribute_papers lib tokenizer model w))) =
       printed (trace w) @
       map (\<lambda>x. case unknown_votes lib tokenizer model w x of
                  None \<Rightarrow> [] | Some (a, b) \<Rightarrow> attribution_line x a b) names"
proof -
  let ?w1 = "w\<lparr>trace := trace w @ [ListDir (lit ''./papers/Unknown/'')]\<rparr>"
  have 1: "os_listdir (lit ''./papers/Unknown/'') w = (Inr names, ?w1)"
    using assms(1) by (simp add: os_listdir_def)
  have "\<forall>x\<in>set names. unknown_votes lib tokenizer model ?w1 x \<noteq> None"
    using assms(2) by simp
  from for_each_votes [OF this] obtain es
    where 2: "for_each names (\<lambda>x u. attribute_paper lib tokenizer model x) () ?w1 =
        (Inr (), ?w1\<lparr>trace := trace ?w1 @ es\<rparr>)"
      and p: "printed es =
        map (\<lambda>x. case unknown_votes lib tokenizer model w x of
                   None \<Rightarrow> [] | Some (a, b) \<Rightarrow> attribution_line x a b) names"
    by auto
  have "attribute_papers lib tokenizer model w = (Inr (), ?w1\<lparr>trace := trace ?w1 @ es\<rparr>)"
    by (simp add: attribute_papers_def bind_io_def 1 2)
  then show ?thesis
    by (simp add: printed_append p)
qed

section \<open>The script as a pipeline\<close>

lemma bind_io_assoc: "bind_io (bind_io m f) g = bind_io m (\<lambda>x. bind_io (f x) g)"
  by (auto simp: bind_io_def fun_eq_iff split: prod.splits sum.splits)

lemma bind_io_return: "bind_io (return_io x) f = f x"
  by (simp add: bind_io_def return_io_def)

lemma run_pipeline: "run lib = pipeline lib"
  by (simp add: run_def pipeline_def training_def preprocess_stage_def tokenize_stage_def
      split_stage_def train_stage_def vote_predict_stage_def bind_io_assoc bind_io_return
      split_def)

lemma run_training:
  "run lib = bind_io (training lib) (\<lambda>(tokenizer, model). attribute_papers lib tokenizer model)"
  by (simp add: run_pipeline pipeline_def vote_predict_stage_def)

text \<open>
  C1: every unknown document is attributed by majority vote over its subsequences. The
  loop over \<^verbatim>\<open>os.listdir('./papers/Unknown/')\<close>, which a run enters with the tokenizer
  and the network that the training has returned, prints one line for each paper of the
  directory, in the order of the listing, when every paper can be read, cut into
  subsequences and predicted. The line of a paper names author A exactly when the
  subsequences predicted as author A are strictly more than those predicted as author
  B, names author B in every other case, a tie included, and ends in the larger and the
  smaller count.
\<close>

theorem majority_vote_attribution:
  assumes "dirs w (lit ''./papers/Unknown/'') = Inr names"
    and "\<forall>x\<in>set names. unknown_votes lib tokenizer model w x \<noteq> None"
  shows "fst (attribute_papers lib tokenizer model w) = Inr () \<and>
     printed (trace (snd (attribute_papers lib tokenizer model w))) =
       printed (trace w) @
       map (\<lambda>x. case unknown_votes lib tokenizer model w x of
                  None \<Rightarrow> []
                | Some (votes_A, votes_B) \<Rightarrow>
                    lit ''Paper '' @
                    str_replace (lit ''.txt'') [] (str_replace (lit ''paper_'') [] x) @
                    lit '' is predicted to have been written by '' @
                    (if votes_A > votes_B then lit ''Author A'' else lit ''Author B'') @
                    lit '', '' @ str_nat (max votes_A votes_B) @
                    lit '' to '' @ str_nat (min votes_A votes_B))
         names \<and>
     run lib =
       bind_io (training lib) (\<lambda>(tokenizer, model). attribute_papers lib tokenizer model)"
proof -
  have "(case v of None \<Rightarrow> [] | Some (a, b) \<Rightarrow> attribution_line x a b) =
      (case v of
         None \<Rightarrow> []
       | Some (votes_A, votes_B) \<Rightarrow>
           lit ''Paper '' @
           str_replace (lit ''.txt'') [] (str_replace (lit ''paper_'') [] x) @
           lit '' is predicted to have been written by '' @
           (if votes_A > votes_B then lit ''Author A'' else lit ''Author B'') @
           lit '', '' @ str_nat (max votes_A votes_B) @
           lit '' to '' @ str_nat (min votes_A votes_B))" for v x
    by (simp add: attribution_line_def split: option.splits)
  with attribute_papers_votes [OF assms] run_training [of lib] show ?thesis
    by simp
qed

lemma example_subsequences:
  assumes "30 \<le> length s" "list_all (\<lambda>c. c < 2 ^ 53) s"
  shows "make_subsequences (map int s) UNKNOWN SEQ_LEN =
     Inr (\<lparr>nrows = length s - 30 + 1, ncols = 30,
           rows = map (\<lambda>i. map int (take 30 (drop i s))) [0..<length s - 30 + 1]\<rparr>,
          \<lparr>nrows = length s - 30 + 1, ncols = 1, rows = replicate (length s - 30 + 1) [- 1]\<rparr>)"
proof -
  have small: "\<bar>int c\<bar> < 2 ^ 53" if "c \<in> set s" for c
  proof -
    from that assms(2) have "c < 2 ^ 53"
      by (simp add: list_all_iff)
    then have "int c < int (2 ^ 53)"
      by (simp only: of_nat_less_iff)
    then show ?thesis
      by simp
  qed
  have fits: "list_all fits_float64 (map int s)"
    using small by (simp add: list_all_iff fits_float64_small)
  have "map round_float64 (take 30 (drop i (map int s))) = map int (take 30 (drop i s))" for i
  proof -
    have "set (take 30 (drop i s)) \<subseteq> set s"
      by (meson set_take_subset set_drop_subset subset_trans)
    then have "map round_float64 (map int (take 30 (drop i s))) = map int (take 30 (drop i s))"
      using small by (intro map_round_exact) (auto simp: list_all_iff exact_float64_small)
    then show ?thesis
      by (simp add: take_map drop_map)
  qed
  then show ?thesis
    using make_subsequences_result [of 30 "map int s" "- 1"] assms(1) fits
    by (simp add: SEQ_LEN_def UNKNOWN_def fits_float64_small round_float64_small
        del: upt_Suc replicate_Suc)
qed

lemma example_library_fields:
  "unicode example_library = example_unicode"
  "texts_to_sequences example_library tokenizer = map int"
  "model_predict example_library model X =
     Inr (map (\<lambda>r. if hd r = 116 then Score (3 / 4)
                    else if hd r = 32 then NaN else Score (1 / 4)) (rows X))"
  by (simp_all add: example_library_def)

lemma example_votes_1:
  "unknown_votes example_library () () example_world (lit ''paper_1.txt'') = Some (1, 1)"
proof -
  let ?content = "lit ''No. 1'' @ [newline] @ lit ''to the people of new york state''"
  let ?s = "lit ''to the people of new york state''"
  have f: "files example_world (lit ''./papers/Unknown/'' @ lit ''paper_1.txt'') = Inr ?content"
    by (simp add: example_world_def lit_def)
  have t: "preprocess_lines example_unicode (readlines ?content) = ?s"
    by (simp add: eval_strings)
  have s: "make_subsequences (map int ?s) UNKNOWN SEQ_LEN =
     Inr (\<lparr>nrows = 2, ncols = 30,
           rows = [map int (take 30 ?s), map int (take 30 (drop 1 ?s))]\<rparr>,
          \<lparr>nrows = 2, ncols = 1, rows = [[- 1], [- 1]]\<rparr>)"
    using example_subsequences [of ?s]
    by (simp add: lit_def upt_rec [of _ "numeral k" for k] upt_rec [of _ "Suc k" for k])
  show ?thesis
    unfolding unknown_votes_def f sum.case paper_votes_def example_library_fields t s
    by (simp add: lit_def)
qed

lemma example_votes_2:
  "unknown_votes example_library () () example_world (lit ''paper_2.txt'') = Some (2, 1)"
proof -
  let ?content = "lit ''No. 2'' @ [newline] @ lit ''To the People of New York State.''"
  let ?s = "lit ''to the people of new york state.''"
  have f: "files example_world (lit ''./papers/Unknown/'' @ lit ''paper_2.txt'') = Inr ?content"
    by (simp add: example_world_def lit_def)
  have t: "preprocess_lines example_unicode (readlines ?content) = ?s"
    by (simp add: eval_strings)
  have s: "make_subsequences (map int ?s) UNKNOWN SEQ_LEN =
     Inr (\<lparr>nrows = 3, ncols = 30,
           rows = [map int (take 30 ?s), map int (take 30 (drop 1 ?s)),
                   map int (take 30 (drop 2 ?s))]\<rparr>,
          \<lparr>nrows = 3, ncols = 1, rows = [[- 1], [- 1], [- 1]]\<rparr>)"
    using example_subsequences [of ?s]
    by (simp add: lit_def upt_rec [of _ "numeral k" for k] upt_rec [of _ "Suc k" for k])
  show ?thesis
    unfolding unknown_votes_def f sum.case paper_votes_def example_library_fields t s
    by (simp add: lit_def)
qed

theorem majority_vote_attribution_witness:
  "dirs example_world (lit ''./papers/Unknown/'') = Inr [lit ''paper_1.txt'', lit ''paper_2.txt''] \<and>
   unknown_votes example_library () () example_world (lit ''paper_1.txt'') = Some (1, 1) \<and>
   unknown_votes example_library () () example_world (lit ''paper_2.txt'') = Some (2, 1) \<and>
   fst (attribute_papers example_library () () example_world) = Inr () \<and>
   printed (trace (snd (attribute_papers example_library () () example_world))) =
     [lit ''Paper 1 is predicted to have been written by Author B, 1 to 1'',
      lit ''Paper 2 is predicted to have been written by Author A, 2 to 1'']"
proof -
  have h1: "dirs example_world (lit ''./papers/Unknown/'') =
      Inr [lit ''paper_1.txt'', lit ''paper_2.txt'']"
    by (simp add: example_world_def)
  have h2: "\<forall>x\<in>set [lit ''paper_1.txt'', lit ''paper_2.txt''].
      unknown_votes example_library () () example_world x \<noteq> None"
    by (simp add: example_votes_1 example_votes_2)
  have n: "str_nat (Suc 0) = [49]" "str_nat 2 = [50]" "str_nat (Suc (Suc 0)) = [50]"
    by (simp_all add: str_nat.simps)
  have t: "printed (trace example_world) = []"
    by (simp add: example_world_def)
  from majority_vote_attribution [OF h1 h2]
  have r: "fst (attribute_papers example_library () () example_world) = Inr ()"
    and p: "printed (trace (snd (attribute_papers example_library () () example_world))) =
      printed (trace example_world) @
      map (\<lambda>x. case unknown_votes example_library () () example_world x of
                 None \<Rightarrow> []
               | Some (votes_A, votes_B) \<Rightarrow>
                   lit ''Paper '' @
                   str_replace (lit ''.txt'') [] (str_replace (lit ''paper_'') [] x) @
                   lit '' is predicted to have been written by '' @
                   (if votes_A > votes_B then lit ''Author A'' else lit ''Author B'') @
                   lit '', '' @ str_nat (max votes_A votes_B) @
                   lit '' to '' @ str_nat (min votes_A votes_B))
        [lit ''paper_1.txt'', lit ''paper_2.txt'']"
    by blast+
  show ?thesis
  proof (intro conjI)
    show "printed (trace (snd (attribute_papers example_library () () example_world))) =
      [lit ''Paper 1 is predicted to have been written by Author B, 1 to 1'',
       lit ''Paper 2 is predicted to have been written by Author A, 2 to 1'']"
      unfolding p t list.map example_votes_1 example_votes_2 option.case prod.case
      by (simp add: n lit_def)
  qed (rule h1 example_votes_1 example_votes_2 r)+
qed

section \<open>Rules for the statements of the script\<close>

lemma sat_return: "N [] \<Longrightarrow> sat d f N F (return_io x)"
  by (simp add: sat_def return_io_def)

lemma sat_lift:
  "(case r of Inr x \<Rightarrow> N [] | Inl e \<Rightarrow> F [] e) \<Longrightarrow> sat d f N F (lift_io r)"
  by (simp add: sat_def lift_io_def)

lemma sat_emit: "N [ev] \<Longrightarrow> sat d f N F (emit ev)"
  by (simp add: sat_def emit_def)

lemma sat_print: "N [Print line] \<Longrightarrow> sat d f N F (print line)"
  by (simp add: print_def sat_emit)

lemma sat_os_listdir:
  "(case d path of Inr names \<Rightarrow> N [ListDir path] | Inl e \<Rightarrow> F [ListDir path] e) \<Longrightarrow>
   sat d f N F (os_listdir path)"
  by (auto simp: sat_def os_listdir_def split: sum.splits)

lemma sat_open_readlines:
  "(case f path of Inr content \<Rightarrow> N [ReadFile path] | Inl e \<Rightarrow> F [ReadFile path] e) \<Longrightarrow>
   sat d f N F (open_readlines path)"
  by (auto simp: sat_def open_readlines_def split: sum.splits)

lemma sat_bind:
  assumes m: "sat d f N1 F1 m" and k: "\<And>x. sat d f N2 F2 (k x)"
    and NN: "\<And>a b. N1 a \<Longrightarrow> N2 b \<Longrightarrow> N (a @ b)"
    and F1: "\<And>a e. F1 a e \<Longrightarrow> F a e"
    and NF: "\<And>a b e. N1 a \<Longrightarrow> F2 b e \<Longrightarrow> F (a @ b) e"
  shows "sat d f N F (bind_io m k)"
  unfolding sat_def
proof (intro allI impI)
  fix w :: world
  assume w: "dirs w = d \<and> files w = f"
  obtain r1 w1 where m1: "m w = (r1, w1)"
    by (cases "m w")
  with m w obtain a where a: "dirs w1 = d" "files w1 = f" "trace w1 = trace w @ a"
      "case r1 of Inr x \<Rightarrow> N1 a | Inl e \<Rightarrow> F1 a e"
    unfolding sat_def by fastforce
  show "case bind_io m k w of (r, w') \<Rightarrow> dirs w' = d \<and> files w' = f \<and>
      (\<exists>es. trace w' = trace w @ es \<and> (case r of Inr x \<Rightarrow> N es | Inl e \<Rightarrow> F es e))"
  proof (cases r1)
    case (Inl e)
    with m1 a F1 show ?thesis
      by (simp add: bind_io_def)
  next
    case (Inr x)
    obtain r2 w2 where m2: "k x w1 = (r2, w2)"
      by (cases "k x w1")
    with k [of x] a obtain b where b: "dirs w2 = d" "files w2 = f" "trace w2 = trace w1 @ b"
        "case r2 of Inr x \<Rightarrow> N2 b | Inl e \<Rightarrow> F2 b e"
      unfolding sat_def by fastforce
    have "case r2 of Inr x \<Rightarrow> N (a @ b) | Inl e \<Rightarrow> F (a @ b) e"
      using a(4) b(4) Inr NN NF by (auto split: sum.splits)
    with m1 m2 Inr a b show ?thesis
      by (auto simp: bind_io_def)
  qed
qed

lemma sat_bind_closed:
  assumes "closed N F" and "sat d f N F m" and "\<And>x. sat d f N F (k x)"
  shows "sat d f N F (bind_io m k)"
  using assms(2,3)
proof (rule sat_bind)
  show "\<And>a b. N a \<Longrightarrow> N b \<Longrightarrow> N (a @ b)" "\<And>a b e. N a \<Longrightarrow> F b e \<Longrightarrow> F (a @ b) e"
    using assms(1) unfolding closed_def by blast+
qed

lemma sat_for_each:
  assumes "closed N F" and "\<And>x s. sat d f N F (body x s)"
  shows "sat d f N F (for_each xs body s)"
proof (induction xs arbitrary: s)
  case Nil
  show ?case
    using assms(1) by (simp add: sat_return closed_def)
next
  case (Cons x xs)
  show ?case
    unfolding for_each.simps
    by (rule sat_bind_closed [OF assms(1) assms(2)]) (rule Cons.IH)
qed

lemma sat_case_prod: "(\<And>a b. sat d f N F (k a b)) \<Longrightarrow> sat d f N F (case p of (a, b) \<Rightarrow> k a b)"
  by (cases p) simp

text \<open>
  \<open>raises\<close> says of a call of \<^verbatim>\<open>make_subsequences\<close> with the default
  \<^verbatim>\<open>sequence_length\<close> what the call does.
\<close>

lemma make_subsequences_raises:
  assumes "raises d f (MakeSubsequences ls label) = Some e"
  shows "make_subsequences ls label SEQ_LEN = Inl e"
proof (cases "int (length ls) < SEQ_LEN - 1")
  case True
  with assms have "e = ValueError"
    by simp
  moreover from True have "make_subsequences ls label SEQ_LEN = Inl ValueError"
    by (intro make_subsequences_short) simp
  ultimately show ?thesis
    by simp
next
  case False
  with assms have e: "e = OverflowError" and long: "SEQ_LEN \<le> int (length ls)"
    and bad: "list_ex (\<lambda>n. \<not> fits_float64 n) ls \<or> \<not> fits_float64 label"
    by (simp_all split: if_splits)
  from bad have "(0 < (30::int) \<and> \<not> list_all fits_float64 ls) \<or> \<not> fits_float64 label"
    by (auto simp: list_ex_iff list_all_iff)
  with long have "make_subsequences ls label 30 = Inl OverflowError"
    by (intro make_subsequences_overflow) (simp_all add: SEQ_LEN_def)
  with e show ?thesis
    by (simp add: SEQ_LEN_def)
qed

lemma make_subsequences_returns:
  assumes "raises d f (MakeSubsequences ls label) = None"
  shows "\<exists>X y. make_subsequences ls label SEQ_LEN = Inr (X, y)"
proof (cases "30 \<le> length ls")
  case True
  with assms have "list_all fits_float64 ls" "fits_float64 label"
    by (auto simp: SEQ_LEN_def list_ex_iff list_all_iff split: if_splits)
  with True show ?thesis
    using make_subsequences_shape [of ls label] by blast
next
  case False
  with assms have "SEQ_LEN = int (length ls) + 1"
    by (simp add: SEQ_LEN_def split: if_splits)
  then show ?thesis
    using make_subsequences_empty [of SEQ_LEN ls label] by simp
qed

lemma admits_closed: "admits d f N F \<Longrightarrow> closed N F"
  by (simp add: admits_def)

lemma admits_event:
  "admits d f N F \<Longrightarrow> (case raises d f ev of None \<Rightarrow> N [ev] | Some e \<Rightarrow> F [ev] e)"
  by (simp add: admits_def)

lemma admits_quiet: "admits d f N F \<Longrightarrow> raises d f ev = None \<Longrightarrow> N [ev]"
  using admits_event [of d f N F ev] by simp

lemma admits_Nil: "admits d f N F \<Longrightarrow> N []"
  by (simp add: admits_def closed_def)

lemma sat_bind_admits:
  "admits d f N F \<Longrightarrow> sat d f N F m \<Longrightarrow> (\<And>x. sat d f N F (k x)) \<Longrightarrow> sat d f N F (bind_io m k)"
  by (rule sat_bind_closed [OF admits_closed])

lemma sat_return_admits: "admits d f N F \<Longrightarrow> sat d f N F (return_io x)"
  by (rule sat_return [OF admits_Nil])

lemma sat_lift_admits: "admits d f N F \<Longrightarrow> sat d f N F (lift_io r)"
  by (rule sat_lift) (simp add: admits_def closed_def split: sum.splits)

lemma sat_emit_admits: "admits d f N F \<Longrightarrow> raises d f ev = None \<Longrightarrow> sat d f N F (emit ev)"
  by (rule sat_emit [OF admits_quiet])

lemma sat_print_admits: "admits d f N F \<Longrightarrow> sat d f N F (print line)"
  unfolding print_def by (rule sat_emit_admits) simp_all

lemma sat_print_lines: "admits d f N F \<Longrightarrow> sat d f N F (print_lines lines)"
  unfolding print_lines_def
  by (rule sat_for_each [OF admits_closed]) (simp_all add: sat_print_admits)

lemma sat_listdir_admits: "admits d f N F \<Longrightarrow> sat d f N F (os_listdir dir)"
  using admits_event [of d f N F "ListDir dir"]
  by (intro sat_os_listdir) (simp split: sum.splits)

lemma sat_preprocess_text:
  assumes "admits d f N F"
  shows "sat d f N F (preprocess_text u path)"
  unfolding preprocess_text_def
proof (rule sat_bind_admits [OF assms])
  show "sat d f N F (open_readlines path)"
    using admits_event [OF assms, of "ReadFile path"]
    by (intro sat_open_readlines) (simp split: sum.splits)
qed (rule sat_return_admits [OF assms])

lemma sat_read_author:
  assumes "admits d f N F"
  shows "sat d f N F (read_author u dir)"
  unfolding read_author_def
  by (intro sat_bind_admits [OF assms] sat_listdir_admits [OF assms]
      sat_for_each [OF admits_closed [OF assms]] sat_preprocess_text [OF assms]
      sat_return_admits [OF assms])

lemma sat_tokenizer_fit: "admits d f N F \<Longrightarrow> sat d f N F (tokenizer_fit lib texts)"
  unfolding tokenizer_fit_def
  by (intro sat_bind_admits sat_emit_admits sat_return_admits) simp_all

lemma sat_tokenizer_sequences:
  "admits d f N F \<Longrightarrow> sat d f N F (tokenizer_sequences lib tokenizer s)"
  unfolding tokenizer_sequences_def
  by (intro sat_bind_admits sat_emit_admits sat_return_admits) simp_all

lemma sat_word_tokenizer_fit: "admits d f N F \<Longrightarrow> sat d f N F (word_tokenizer_fit lib a b)"
  unfolding word_tokenizer_fit_def
  by (intro sat_bind_admits sat_emit_admits sat_return_admits) simp_all

lemma subsequences_result:
  "subsequences ls label w =
     (make_subsequences ls label SEQ_LEN, w\<lparr>trace := trace w @ [MakeSubsequences ls label]\<rparr>)"
  by (simp add: subsequences_def bind_io_def emit_def lift_io_def)

lemma sat_subsequences:
  assumes "admits d f N F"
  shows "sat d f N F (subsequences ls label)"
proof (cases "raises d f (MakeSubsequences ls label)")
  case None
  with admits_event [OF assms, of "MakeSubsequences ls label"]
  have "N [MakeSubsequences ls label]"
    by simp
  with make_subsequences_returns [OF None] show ?thesis
    by (auto simp: sat_def subsequences_result)
next
  case (Some e)
  with admits_event [OF assms, of "MakeSubsequences ls label"]
  have "F [MakeSubsequences ls label] e"
    by simp
  with make_subsequences_raises [OF Some] show ?thesis
    by (simp add: sat_def subsequences_result)
qed

lemma sat_fit:
  "admits d f N F \<Longrightarrow> sat d f N F (fit lib tokenizer X_train y_train X_val y_val)"
  unfolding fit_def
  by (intro sat_case_prod sat_bind_admits sat_print_lines sat_lift_admits sat_emit_admits
      sat_return_admits) simp_all

lemma sat_predict: "admits d f N F \<Longrightarrow> sat d f N F (predict lib model X)"
  unfolding predict_def
  by (intro sat_bind_admits sat_emit_admits sat_lift_admits) simp_all

lemma sat_attribute_paper:
  assumes "admits d f N F"
  shows "sat d f N F (attribute_paper lib tokenizer model x)"
  unfolding attribute_paper_def
  by (intro sat_bind_admits [OF assms] sat_case_prod sat_preprocess_text [OF assms]
      sat_tokenizer_sequences [OF assms] sat_subsequences [OF assms] sat_lift_admits [OF assms]
      sat_predict [OF assms] sat_print_admits [OF assms])

lemma sat_attribute_papers:
  assumes "admits d f N F"
  shows "sat d f N F (attribute_papers lib tokenizer model)"
  unfolding attribute_papers_def
  by (intro sat_bind_admits [OF assms] sat_listdir_admits [OF assms]
      sat_for_each [OF admits_closed [OF assms]] sat_attribute_paper [OF assms])

lemma sat_run:
  assumes "admits d f N F"
  shows "sat d f N F (run lib)"
  unfolding run_def
  by (intro sat_bind_admits [OF assms] sat_case_prod
      sat_read_author [OF assms]
      sat_print_admits [OF assms] sat_tokenizer_fit [OF assms]
      sat_tokenizer_sequences [OF assms] sat_subsequences [OF assms]
      sat_word_tokenizer_fit [OF assms] sat_emit_admits [OF assms] sat_lift_admits [OF assms]
      sat_print_lines [OF assms] sat_fit [OF assms] sat_attribute_papers [OF assms])
    simp_all

lemma sat_run_world:
  assumes "admits (dirs w) (files w) N F"
  shows "case run lib w of (r, w') \<Rightarrow>
     dirs w' = dirs w \<and> files w' = files w \<and>
     (\<exists>es. trace w' = trace w @ es \<and> (case r of Inr x \<Rightarrow> N es | Inl e \<Rightarrow> F es e))"
  using sat_run [OF assms, of lib] unfolding sat_def by simp

section \<open>Errors of a run\<close>

lemma aborts_append:
  "aborts_at_first_error d f a None \<Longrightarrow>
   aborts_at_first_error d f (a @ b) r = aborts_at_first_error d f b r"
  by (induction a) (auto split: option.splits)

lemma admits_aborts:
  "admits d f (\<lambda>es. aborts_at_first_error d f es None)
     (\<lambda>es e. aborts_at_first_error d f es (Some e))"
  unfolding admits_def closed_def
  by (auto simp: aborts_append split: option.splits)

lemma run_missing_directory:
  assumes "dirs w (lit ''./papers/A/'') = Inl e"
  shows "run lib w = (Inl e, w\<lparr>trace := trace w @ [ListDir (lit ''./papers/A/'')]\<rparr>)"
  using assms by (simp add: run_def read_author_def bind_io_def os_listdir_def)

lemma for_each_aborts:
  "body x s w = (Inl e, w') \<Longrightarrow> for_each (x # xs) body s w = (Inl e, w')"
  by (simp add: bind_io_def)

lemma attribute_paper_unreadable:
  assumes "files w (lit ''./papers/Unknown/'' @ x) = Inl e"
  shows "attribute_paper lib tokenizer model x w =
     (Inl e, w\<lparr>trace := trace w @ [ReadFile (lit ''./papers/Unknown/'' @ x)]\<rparr>)"
  using assms by (simp add: attribute_paper_def bind_io_def preprocess_text_result)

lemma attribute_paper_raises:
  assumes "files w (lit ''./papers/Unknown/'' @ x) = Inr content"
    and "raises d f (MakeSubsequences (texts_to_sequences lib tokenizer
            (preprocess_lines (unicode lib) (readlines content))) UNKNOWN) = Some e"
  shows "attribute_paper lib tokenizer model x w =
     (Inl e, w\<lparr>trace := trace w @
        [ReadFile (lit ''./papers/Unknown/'' @ x), TextsToSequences,
         MakeSubsequences (texts_to_sequences lib tokenizer
            (preprocess_lines (unicode lib) (readlines content))) UNKNOWN]\<rparr>)"
  using assms(1) make_subsequences_raises [OF assms(2)]
  by (simp add: attribute_paper_def bind_io_def preprocess_text_result
      tokenizer_sequences_result subsequences_result)

text \<open>
  C7: nothing in the script catches an exception. In every run, an operation that
  raises (listing a directory or opening a file that cannot be read,
  \<^verbatim>\<open>make_subsequences\<close> on a sequence shorter than \<open>SEQ_LEN - 1\<close>, where \<^verbatim>\<open>np.zeros\<close>
  gets a negative dimension, or \<^verbatim>\<open>make_subsequences\<close> on items beyond \<^verbatim>\<open>float64\<close>) is
  the last thing the run does, and its exception is the outcome of the run: nothing is
  computed or printed behind it, so no attribution of the paper at hand is left half
  done.
\<close>

theorem errors_abort_run:
  "case run lib w of
     (r, w') \<Rightarrow>
       \<exists>es. trace w' = trace w @ es \<and>
            aborts_at_first_error (dirs w) (files w) es (outcome r)"
proof -
  obtain r w' where rw: "run lib w = (r, w')"
    by (cases "run lib w")
  with sat_run_world [OF admits_aborts, of w lib]
  obtain es where "trace w' = trace w @ es"
    "case r of Inr x \<Rightarrow> aborts_at_first_error (dirs w) (files w) es None
     | Inl e \<Rightarrow> aborts_at_first_error (dirs w) (files w) es (Some e)"
    by auto
  then have "trace w' = trace w @ es \<and> aborts_at_first_error (dirs w) (files w) es (outcome r)"
    by (cases r) (simp_all add: outcome_def)
  with rw show ?thesis
    by auto
qed

section \<open>The order of the stages\<close>

lemma stages_from_append:
  "stages_from p (a @ b) = (case stages_from p a of None \<Rightarrow> None | Some q \<Rightarrow> stages_from q b)"
  by (induction a arbitrary: p) (simp_all split: option.splits)

lemma stage_bind:
  assumes "runs_from d f p q m" and "\<And>x. runs_from d f q r (k x)"
  shows "runs_from d f p r (bind_io m k)"
  using assms unfolding runs_from_def
  by (rule sat_bind) (simp_all add: stages_from_append)

lemma stage_return: "runs_from d f p p (return_io x)"
  unfolding runs_from_def by (rule sat_return) simp

lemma stage_lift: "runs_from d f p p (lift_io r)"
  unfolding runs_from_def by (rule sat_lift) (simp split: sum.splits)

lemma stage_emit: "next_stage p ev = Some q \<Longrightarrow> runs_from d f p q (emit ev)"
  unfolding runs_from_def by (rule sat_emit) simp

lemma stage_print: "runs_from d f p p (print line)"
  unfolding print_def by (rule stage_emit) (cases p; simp)

lemma stage_case_prod:
  "(\<And>a b. runs_from d f p q (k a b)) \<Longrightarrow> runs_from d f p q (case x of (a, b) \<Rightarrow> k a b)"
  by (cases x) simp

lemma stage_for_each:
  assumes "\<And>x s. runs_from d f p p (body x s)"
  shows "runs_from d f p p (for_each xs body s)"
proof (induction xs arbitrary: s)
  case Nil
  show ?case by (simp add: stage_return)
next
  case (Cons x xs)
  show ?case
    unfolding for_each.simps by (rule stage_bind [OF assms]) (rule Cons.IH)
qed

lemma stage_print_lines: "runs_from d f p p (print_lines lines)"
  unfolding print_lines_def by (rule stage_for_each) (rule stage_print)

lemma stage_listdir:
  "next_stage p (ListDir path) = Some p \<Longrightarrow> runs_from d f p p (os_listdir path)"
  unfolding runs_from_def by (rule sat_os_listdir) (simp split: sum.splits)

lemma stage_preprocess_text:
  assumes "next_stage p (ReadFile path) = Some p"
  shows "runs_from d f p p (preprocess_text u path)"
  unfolding preprocess_text_def
proof (rule stage_bind)
  show "runs_from d f p p (open_readlines path)"
    unfolding runs_from_def using assms by (intro sat_open_readlines) (simp split: sum.splits)
qed (rule stage_return)

lemma stage_read_author: "runs_from d f Preprocess Preprocess (read_author u dir)"
  unfolding read_author_def
  by (intro stage_bind [where q = Preprocess] stage_listdir stage_for_each
      stage_preprocess_text stage_return) simp_all

lemma stage_tokenizer_fit: "runs_from d f Preprocess Tokenize (tokenizer_fit lib texts)"
  unfolding tokenizer_fit_def
  by (rule stage_bind [where q = Tokenize]) (simp_all add: stage_emit stage_return)

lemma stage_tokenizer_sequences:
  "next_stage p TextsToSequences = Some p \<Longrightarrow>
   runs_from d f p p (tokenizer_sequences lib tokenizer s)"
  unfolding tokenizer_sequences_def
  by (rule stage_bind [where q = p]) (simp_all add: stage_emit stage_return)

lemma stage_word_tokenizer_fit: "runs_from d f Tokenize Tokenize (word_tokenizer_fit lib a b)"
  unfolding word_tokenizer_fit_def
  by (rule stage_bind [where q = Tokenize]) (simp_all add: stage_emit stage_return)

lemma stage_subsequences:
  "next_stage p (MakeSubsequences ls label) = Some p \<Longrightarrow>
   runs_from d f p p (subsequences ls label)"
  unfolding subsequences_def
  by (rule stage_bind [where q = p]) (simp_all add: stage_emit stage_lift)

lemma stage_fit:
  "runs_from d f (Train (X_train, X_val, y_train, y_val)) VotePredict
     (fit lib tokenizer X_train y_train X_val y_val)"
  unfolding fit_def
  apply (rule stage_case_prod)
  apply (rule stage_bind [OF stage_print_lines])
  apply (rule stage_bind [OF stage_lift])
  apply (rule stage_bind [where q = VotePredict], rule stage_emit, simp)
  apply (rule stage_return)
  done

lemma stage_predict: "runs_from d f VotePredict VotePredict (predict lib model X)"
  unfolding predict_def
  by (rule stage_bind [where q = VotePredict]) (simp_all add: stage_emit stage_lift)

lemma stage_attribute_paper:
  "runs_from d f VotePredict VotePredict (attribute_paper lib tokenizer model x)"
  unfolding attribute_paper_def
  by (intro stage_bind [where q = VotePredict] stage_case_prod stage_preprocess_text
      stage_tokenizer_sequences stage_subsequences stage_lift stage_predict stage_print)
    simp_all

lemma stage_attribute_papers:
  "runs_from d f VotePredict VotePredict (attribute_papers lib tokenizer model)"
  unfolding attribute_papers_def
  by (intro stage_bind [where q = VotePredict] stage_listdir stage_for_each
      stage_attribute_paper) simp

lemma stage_run: "runs_from d f Preprocess VotePredict (run lib)"
  unfolding run_def
  apply (rule stage_bind [OF stage_read_author])
  apply (rule stage_bind [OF stage_read_author])
  apply (rule stage_bind [OF stage_print])
  apply (rule stage_bind [OF stage_print])
  apply (rule stage_bind [OF stage_tokenizer_fit])
  apply (rule stage_bind [OF stage_tokenizer_sequences], simp)
  apply (rule stage_bind [OF stage_tokenizer_sequences], simp)
  apply (rule stage_bind [OF stage_subsequences], simp)
  apply (rule stage_case_prod)
  apply (rule stage_bind [OF stage_subsequences], simp)
  apply (rule stage_case_prod)
  apply (rule stage_bind [OF stage_print])
  apply (rule stage_bind [OF stage_print])
  apply (rule stage_bind [OF stage_print])
  apply (rule stage_bind [OF stage_word_tokenizer_fit])
  apply (rule stage_bind [OF stage_print])
  apply (rule stage_bind [OF stage_print])
  apply (rule stage_bind [OF stage_lift])
  apply (intro stage_case_prod)
  apply (rule stage_bind [OF stage_emit], simp)
  apply (rule stage_bind [OF stage_print])
  apply (rule stage_bind [OF stage_print])
  apply (rule stage_bind [OF stage_print])
  apply (rule stage_bind [OF stage_print])
  apply (rule stage_bind [OF stage_emit], simp)
  apply (rule stage_bind [OF stage_print_lines])
  apply (rule stage_bind [OF stage_fit])
  apply (rule stage_attribute_papers)
  done

lemma none_before_sequences:
  "stages_from Preprocess es \<noteq> None \<Longrightarrow>
   none_before (\<lambda>ev. ev = TextsToSequences) (\<lambda>ev. ev = FitTokenizer) es"
proof (induction es)
  case Nil
  show ?case by simp
next
  case (Cons ev es)
  then show ?case
    by (cases ev) (simp_all split: option.splits)
qed

lemma next_stage_not_votes:
  assumes "next_stage p ev = Some q" "p \<noteq> VotePredict" "\<not> is_model_fit ev"
  shows "q \<noteq> VotePredict \<and> ev \<noteq> ModelPredict"
proof (cases p)
  case Preprocess
  with assms(1) show ?thesis by (cases ev) auto
next
  case Tokenize
  with assms(1) show ?thesis by (cases ev) auto
next
  case (Split made)
  with assms(1) show ?thesis by (cases ev) auto
next
  case (Train made)
  with assms(1,3) show ?thesis by (cases ev) auto
next
  case VotePredict
  with assms(2) show ?thesis by simp
qed

lemma none_before_predict:
  "stages_from p es \<noteq> None \<Longrightarrow> p \<noteq> VotePredict \<Longrightarrow>
   none_before (\<lambda>ev. ev = ModelPredict) is_model_fit es"
proof (induction es arbitrary: p)
  case Nil
  show ?case by simp
next
  case (Cons ev es)
  then obtain q where q: "next_stage p ev = Some q" "stages_from q es \<noteq> None"
    by (auto split: option.splits)
  show ?case
  proof (cases "is_model_fit ev")
    case True
    then show ?thesis by simp
  next
    case False
    from next_stage_not_votes [OF q(1) Cons.prems(2) False]
    have "q \<noteq> VotePredict" "ev \<noteq> ModelPredict"
      by simp_all
    with Cons.IH [OF q(2)] False show ?thesis
      by simp
  qed
qed

lemma stages_fit_on_split:
  assumes "stages_from p es \<noteq> None"
    and "case p of Split arrays \<Rightarrow> made = Some arrays | Train arrays \<Rightarrow> made = Some arrays
         | _ \<Rightarrow> True"
  shows "fit_on_split made es"
  using assms
proof (induction es arbitrary: p made)
  case Nil
  show ?case by simp
next
  case (Cons ev es)
  then obtain q where q: "next_stage p ev = Some q" "stages_from q es \<noteq> None"
    by (auto split: option.splits)
  show ?case
  proof (cases ev)
    case (TrainTestSplit arrays)
    with q(1) have "q = Split arrays"
      by (cases p) simp_all
    with Cons.IH [OF q(2), of "Some arrays"] TrainTestSplit show ?thesis
      by simp
  next
    case (ModelFit X y X_validate y_validate)
    with q(1) Cons.prems(2) have m: "made = Some (X, X_validate, y, y_validate)" "q = VotePredict"
      by (cases p; simp split: if_splits)+
    with Cons.IH [OF q(2), of made] ModelFit show ?thesis
      by simp
  next
    case ModelCompile
    with q(1) Cons.prems(2)
    have "case q of Split arrays \<Rightarrow> made = Some arrays | Train arrays \<Rightarrow> made = Some arrays
          | _ \<Rightarrow> True"
      by (cases p) auto
    with Cons.IH [OF q(2), of made] ModelCompile show ?thesis
      by simp
  next
    case (Print line)
    with q(1) Cons.prems(2)
    have "case q of Split arrays \<Rightarrow> made = Some arrays | Train arrays \<Rightarrow> made = Some arrays
          | _ \<Rightarrow> True"
      by (cases p) auto
    with Cons.IH [OF q(2), of made] Print show ?thesis
      by simp
  next
    case (ListDir path)
    with q(1) have "q = Preprocess \<or> q = VotePredict"
      by (cases p) auto
    with Cons.IH [OF q(2), of made] ListDir show ?thesis
      by auto
  next
    case (ReadFile path)
    with q(1) have "q = Preprocess \<or> q = VotePredict"
      by (cases p) auto
    with Cons.IH [OF q(2), of made] ReadFile show ?thesis
      by auto
  next
    case (MakeSubsequences ls label)
    with q(1) have "q = Tokenize \<or> q = VotePredict"
      by (cases p) auto
    with Cons.IH [OF q(2), of made] MakeSubsequences show ?thesis
      by auto
  next
    case FitTokenizer
    with q(1) have "q = Tokenize"
      by (cases p) auto
    with Cons.IH [OF q(2), of made] FitTokenizer show ?thesis
      by auto
  next
    case TextsToSequences
    with q(1) have "q = Tokenize \<or> q = VotePredict"
      by (cases p) auto
    with Cons.IH [OF q(2), of made] TextsToSequences show ?thesis
      by auto
  next
    case FitWordTokenizer
    with q(1) have "q = Tokenize"
      by (cases p) auto
    with Cons.IH [OF q(2), of made] FitWordTokenizer show ?thesis
      by auto
  next
    case ModelPredict
    with q(1) have "q = VotePredict"
      by (cases p) auto
    with Cons.IH [OF q(2), of made] ModelPredict show ?thesis
      by auto
  qed
qed

text \<open>
  C9: the stages of every run follow each other in the one order preprocess, tokenize,
  split, train, vote-predict.
  \<^item> The script is the pipeline of these five stages, in which a stage is a function of
    what earlier stages have returned and of nothing else.
  \<^item> The events of a run lead through the stages in this order, up to vote-predict in a
    run that ends normally and up to the stage of the exception in one that raises.
  \<^item> No text is converted to a sequence before the tokenizer is fitted.
  \<^item> No prediction is asked for before \<^verbatim>\<open>model.fit\<close> has returned.
  \<^item> \<^verbatim>\<open>model.fit\<close> is called on the training split: with \<^verbatim>\<open>X_train\<close> and
    \<^verbatim>\<open>y_train\<close> of the split before it as the training data and its \<^verbatim>\<open>X_val\<close> and
    \<^verbatim>\<open>y_val\<close> as the validation data.
\<close>

theorem stages_in_order:
  "run lib = pipeline lib \<and>
   (case run lib w of
      (r, w') \<Rightarrow>
        \<exists>es. trace w' = trace w @ es \<and>
             (case r of Inr u \<Rightarrow> stages_from Preprocess es = Some VotePredict
              | Inl e \<Rightarrow> stages_from Preprocess es \<noteq> None) \<and>
             none_before (\<lambda>ev. ev = TextsToSequences) (\<lambda>ev. ev = FitTokenizer) es \<and>
             none_before (\<lambda>ev. ev = ModelPredict) is_model_fit es \<and>
             fit_on_split None es)"
proof -
  obtain r w' where rw: "run lib w = (r, w')"
    by (cases "run lib w")
  with stage_run [of "dirs w" "files w" lib]
  obtain es where es: "trace w' = trace w @ es"
    "case r of Inr u \<Rightarrow> stages_from Preprocess es = Some VotePredict
     | Inl e \<Rightarrow> stages_from Preprocess es \<noteq> None"
    unfolding runs_from_def sat_def by fastforce
  then have "stages_from Preprocess es \<noteq> None"
    by (cases r) simp_all
  with es rw none_before_sequences [of es] none_before_predict [of Preprocess es]
    stages_fit_on_split [of Preprocess es None] run_pipeline [of lib]
  show ?thesis
    by auto
qed

end
